theory Spec2Isabelle
  imports Main "HOL-Library.Word" "HOL-Library.State_Monad"
begin

section \<open>The FHE library as seen by the contract\<close>

text \<open>
  \<^verbatim>\<open>contracts/CryptoVeilGame.sol\<close> computes on \<^verbatim>\<open>euint32\<close> and \<^verbatim>\<open>ebool\<close>
  values through the calls of the FHE library. An encrypted value is modelled by the
  cleartext it carries: a 32-bit word for \<^verbatim>\<open>euint32\<close> (addition and subtraction wrap
  around, remainder and the comparisons are unsigned), a boolean for \<^verbatim>\<open>ebool\<close>. Every
  call of the library that computes on encrypted values or grants access to one is
  appended to a call log, with its operands, so that statements about which operations
  a transaction requests, and on which operands, can be made.
\<close>

type_synonym euint32 = "32 word"
type_synonym ebool = bool
type_synonym uint32 = "32 word"
type_synonym address = "160 word"

datatype fhe_call =
    Call_randEuint32
  | Call_asEuint32 uint32
  | Call_rem euint32 uint32
  | Call_add euint32 euint32
  | Call_sub euint32 euint32
  | Call_eq euint32 euint32
  | Call_le euint32 euint32
  | Call_ge euint32 euint32
  | Call_select ebool euint32 euint32
  | Call_allowThis euint32
  | Call_allow euint32 address

text \<open>The operation a call requests, without its operands.\<close>

datatype fhe_op =
  Op_rand | Op_asEuint32 | Op_rem | Op_add | Op_sub | Op_eq | Op_le | Op_ge | Op_select
  | Op_allowThis | Op_allow

fun op_of :: "fhe_call \<Rightarrow> fhe_op" where
  "op_of Call_randEuint32 = Op_rand"
| "op_of (Call_asEuint32 v) = Op_asEuint32"
| "op_of (Call_rem a b) = Op_rem"
| "op_of (Call_add a b) = Op_add"
| "op_of (Call_sub a b) = Op_sub"
| "op_of (Call_eq a b) = Op_eq"
| "op_of (Call_le a b) = Op_le"
| "op_of (Call_ge a b) = Op_ge"
| "op_of (Call_select c a b) = Op_select"
| "op_of (Call_allowThis a) = Op_allowThis"
| "op_of (Call_allow a p) = Op_allow"

text \<open>
  An addition or a subtraction of the log wraps around when its exact result is not a
  32-bit unsigned value.
\<close>

fun wraps :: "fhe_call \<Rightarrow> bool" where
  "wraps (Call_add a b) = (2 ^ 32 \<le> unat a + unat b)"
| "wraps (Call_sub a b) = (unat a < unat b)"
| "wraps _ = False"

section \<open>Contract state\<close>

text \<open>
  \<^verbatim>\<open>struct Position { euint32 x; euint32 y; }\<close>; the fields are named \<open>pos_x\<close> and
  \<open>pos_y\<close> here.
\<close>

record Position =
  pos_x :: euint32
  pos_y :: euint32

datatype event =
    PlayerJoined address euint32 euint32
  | PlayerMoved address euint32 euint32

text \<open>
  The storage of the contract (the mappings \<^verbatim>\<open>_positions\<close> and \<^verbatim>\<open>_hasJoined\<close>, whose
  entries are zero until written), the events emitted so far, the log of FHE library
  calls, and the random words the library hands out: \<open>entropy w n\<close> is the value of the
  \<open>n\<close>-th call of \<^verbatim>\<open>FHE.randEuint32\<close>, \<open>drawn w\<close> counts the calls made.
\<close>

record world =
  positions :: "address \<Rightarrow> Position"
  hasJoinedFlag :: "address \<Rightarrow> bool"
  events :: "event list"
  calls :: "fhe_call list"
  entropy :: "nat \<Rightarrow> uint32"
  drawn :: nat

definition deployed :: "(nat \<Rightarrow> uint32) \<Rightarrow> world" where
  "deployed rnd =
     \<lparr>positions = (\<lambda>_. \<lparr>pos_x = 0, pos_y = 0\<rparr>), hasJoinedFlag = (\<lambda>_. False),
      events = [], calls = [], entropy = rnd, drawn = 0\<rparr>"

datatype error = Revert string | InvalidInputProof

abbreviation AlreadyJoined :: error where
  "AlreadyJoined \<equiv> Revert ''Player already joined''"
abbreviation NotJoined :: error where
  "NotJoined \<equiv> Revert ''Join first''"
abbreviation UnknownPlayer :: error where
  "UnknownPlayer \<equiv> Revert ''Unknown player''"

subsection \<open>Library calls\<close>

definition fhe :: "fhe_call \<Rightarrow> 'a \<Rightarrow> (world, 'a) state" where
  "fhe c r = State (\<lambda>w. (r, w\<lparr>calls := calls w @ [c]\<rparr>))"

definition FHE_randEuint32 :: "(world, euint32) state" where
  "FHE_randEuint32 =
     State (\<lambda>w. (entropy w (drawn w),
                 w\<lparr>calls := calls w @ [Call_randEuint32], drawn := Suc (drawn w)\<rparr>))"

definition FHE_asEuint32 :: "uint32 \<Rightarrow> (world, euint32) state" where
  "FHE_asEuint32 v = fhe (Call_asEuint32 v) v"

definition FHE_rem :: "euint32 \<Rightarrow> uint32 \<Rightarrow> (world, euint32) state" where
  "FHE_rem a b = fhe (Call_rem a b) (a mod b)"

definition FHE_add :: "euint32 \<Rightarrow> euint32 \<Rightarrow> (world, euint32) state" where
  "FHE_add a b = fhe (Call_add a b) (a + b)"

definition FHE_sub :: "euint32 \<Rightarrow> euint32 \<Rightarrow> (world, euint32) state" where
  "FHE_sub a b = fhe (Call_sub a b) (a - b)"

definition FHE_eq :: "euint32 \<Rightarrow> euint32 \<Rightarrow> (world, ebool) state" where
  "FHE_eq a b = fhe (Call_eq a b) (a = b)"

definition FHE_le :: "euint32 \<Rightarrow> euint32 \<Rightarrow> (world, ebool) state" where
  "FHE_le a b = fhe (Call_le a b) (a \<le> b)"

definition FHE_ge :: "euint32 \<Rightarrow> euint32 \<Rightarrow> (world, ebool) state" where
  "FHE_ge a b = fhe (Call_ge a b) (a \<ge> b)"

definition FHE_select :: "ebool \<Rightarrow> euint32 \<Rightarrow> euint32 \<Rightarrow> (world, euint32) state" where
  "FHE_select c a b = fhe (Call_select c a b) (if c then a else b)"

definition FHE_allowThis :: "euint32 \<Rightarrow> (world, unit) state" where
  "FHE_allowThis a = fhe (Call_allowThis a) ()"

definition FHE_allow :: "euint32 \<Rightarrow> address \<Rightarrow> (world, unit) state" where
  "FHE_allow a p = fhe (Call_allow a p) ()"

text \<open>
  \<^verbatim>\<open>FHE.fromExternal(input, proof)\<close> hands the input to the input verifier and reverts
  when the proof is rejected. The external handle is modelled by the 32-bit cleartext it
  seals, the proof bytes by the verifier's verdict on them. The check is made before any
  operation on encrypted values and is not part of the call log.
\<close>

datatype externalEuint32 = ExternalEuint32 uint32
datatype inputProof = ProofAccepted | ProofRejected

fun FHE_fromExternal :: "externalEuint32 \<Rightarrow> inputProof \<Rightarrow> error + euint32" where
  "FHE_fromExternal (ExternalEuint32 v) ProofAccepted = Inr v"
| "FHE_fromExternal (ExternalEuint32 v) ProofRejected = Inl InvalidInputProof"

subsection \<open>Storage access and events\<close>

definition sload :: "(world \<Rightarrow> 'a) \<Rightarrow> (world, 'a) state" where
  "sload f = State (\<lambda>w. (f w, w))"

definition sstore :: "(world \<Rightarrow> world) \<Rightarrow> (world, unit) state" where
  "sstore f = State (\<lambda>w. ((), f w))"

definition emit :: "event \<Rightarrow> (world, unit) state" where
  "emit e = sstore (\<lambda>w. w\<lparr>events := events w @ [e]\<rparr>)"

section \<open>The contract\<close>

definition MIN_COORD :: uint32 where "MIN_COORD = 1"
definition MAX_COORD :: uint32 where "MAX_COORD = 10"
definition DIRECTION_MODULO :: uint32 where "DIRECTION_MODULO = 4"

definition randomCoordinate :: "(world, euint32) state" where
  "randomCoordinate = do {
     sample \<leftarrow> FHE_randEuint32;
     bounded \<leftarrow> FHE_rem sample MAX_COORD;
     min_coord \<leftarrow> FHE_asEuint32 MIN_COORD;
     FHE_add bounded min_coord
   }"

definition normalizeDirection :: "euint32 \<Rightarrow> (world, euint32) state" where
  "normalizeDirection direction = FHE_rem direction DIRECTION_MODULO"

definition applyStep :: "euint32 \<Rightarrow> ebool \<Rightarrow> ebool \<Rightarrow> (world, euint32) state" where
  "applyStep current increment decrement = do {
     one \<leftarrow> FHE_asEuint32 1;
     incremented \<leftarrow> FHE_add current one;
     decremented \<leftarrow> FHE_sub current one;
     min_coord \<leftarrow> FHE_asEuint32 MIN_COORD;
     atMin \<leftarrow> FHE_le current min_coord;
     max_coord \<leftarrow> FHE_asEuint32 MAX_COORD;
     atMax \<leftarrow> FHE_ge current max_coord;
     safeIncrement \<leftarrow> FHE_select atMax current incremented;
     safeDecrement \<leftarrow> FHE_select atMin current decremented;
     afterIncrement \<leftarrow> FHE_select increment safeIncrement current;
     FHE_select decrement safeDecrement afterIncrement
   }"

definition updateHorizontal :: "euint32 \<Rightarrow> euint32 \<Rightarrow> (world, euint32) state" where
  "updateHorizontal current direction = do {
     two \<leftarrow> FHE_asEuint32 2;
     moveLeft \<leftarrow> FHE_eq direction two;
     three \<leftarrow> FHE_asEuint32 3;
     moveRight \<leftarrow> FHE_eq direction three;
     applyStep current moveRight moveLeft
   }"

definition updateVertical :: "euint32 \<Rightarrow> euint32 \<Rightarrow> (world, euint32) state" where
  "updateVertical current direction = do {
     zero \<leftarrow> FHE_asEuint32 0;
     moveUp \<leftarrow> FHE_eq direction zero;
     one \<leftarrow> FHE_asEuint32 1;
     moveDown \<leftarrow> FHE_eq direction one;
     applyStep current moveUp moveDown
   }"

definition allowPositionAccess :: "address \<Rightarrow> (world, unit) state" where
  "allowPositionAccess player = do {
     px \<leftarrow> sload (\<lambda>w. pos_x (positions w player));
     FHE_allowThis px;
     py \<leftarrow> sload (\<lambda>w. pos_y (positions w player));
     FHE_allowThis py;
     px \<leftarrow> sload (\<lambda>w. pos_x (positions w player));
     FHE_allow px player;
     py \<leftarrow> sload (\<lambda>w. pos_y (positions w player));
     FHE_allow py player
   }"

text \<open>
  The external functions take the caller (\<^verbatim>\<open>msg.sender\<close>) first. A transaction that
  reverts returns the error and no state: the state of the chain stays the one before
  the call (see \<open>transact\<close> below).
\<close>

definition joinGame :: "address \<Rightarrow> world \<Rightarrow> error + world" where
  "joinGame sender w =
     (if hasJoinedFlag w sender then Inl (Revert ''Player already joined'')
      else Inr (snd (run_state (do {
        sx \<leftarrow> randomCoordinate;
        sy \<leftarrow> randomCoordinate;
        let startingPosition = \<lparr>pos_x = sx, pos_y = sy\<rparr>;
        sstore (\<lambda>w. w\<lparr>positions := (positions w)(sender := startingPosition)\<rparr>);
        sstore (\<lambda>w. w\<lparr>hasJoinedFlag := (hasJoinedFlag w)(sender := True)\<rparr>);
        allowPositionAccess sender;
        emit (PlayerJoined sender (pos_x startingPosition) (pos_y startingPosition))
      }) w)))"

definition move :: "address \<Rightarrow> externalEuint32 \<Rightarrow> inputProof \<Rightarrow> world \<Rightarrow> error + world" where
  "move sender directionInput inputProof w =
     (if \<not> hasJoinedFlag w sender then Inl (Revert ''Join first'')
      else case FHE_fromExternal directionInput inputProof of
        Inl e \<Rightarrow> Inl e
      | Inr direction \<Rightarrow> Inr (snd (run_state (do {
          normalizedDirection \<leftarrow> normalizeDirection direction;
          cx \<leftarrow> sload (\<lambda>w. pos_x (positions w sender));
          nx \<leftarrow> updateHorizontal cx normalizedDirection;
          sstore (\<lambda>w. w\<lparr>positions := (positions w)(sender := (positions w sender)\<lparr>pos_x := nx\<rparr>)\<rparr>);
          cy \<leftarrow> sload (\<lambda>w. pos_y (positions w sender));
          ny \<leftarrow> updateVertical cy normalizedDirection;
          sstore (\<lambda>w. w\<lparr>positions := (positions w)(sender := (positions w sender)\<lparr>pos_y := ny\<rparr>)\<rparr>);
          allowPositionAccess sender;
          px \<leftarrow> sload (\<lambda>w. pos_x (positions w sender));
          py \<leftarrow> sload (\<lambda>w. pos_y (positions w sender));
          emit (PlayerMoved sender px py)
        }) w)))"

definition getPlayerPosition :: "address \<Rightarrow> world \<Rightarrow> error + euint32 \<times> euint32" where
  "getPlayerPosition player w =
     (if \<not> hasJoinedFlag w player then Inl (Revert ''Unknown player'')
      else Inr (pos_x (positions w player), pos_y (positions w player)))"

definition hasJoined :: "address \<Rightarrow> world \<Rightarrow> bool" where
  "hasJoined player w = hasJoinedFlag w player"

definition boardLimits :: "uint32 \<times> uint32" where
  "boardLimits = (MIN_COORD, MAX_COORD)"

section \<open>Transactions\<close>

text \<open>
  A transaction is a call of one of the two state-changing external functions by a
  sender. When the call reverts, the chain keeps the state it had before the call.
\<close>

datatype call = JoinGame | Move externalEuint32 inputProof

fun execute :: "address \<Rightarrow> call \<Rightarrow> world \<Rightarrow> error + world" where
  "execute sender JoinGame w = joinGame sender w"
| "execute sender (Move directionInput inputProof) w = move sender directionInput inputProof w"

definition transact :: "address \<Rightarrow> call \<Rightarrow> world \<Rightarrow> error option \<times> world" where
  "transact sender c w =
     (case execute sender c w of Inl e \<Rightarrow> (Some e, w) | Inr w' \<Rightarrow> (None, w'))"

text \<open>The chain after a sequence of transactions, in order.\<close>

fun run :: "(address \<times> call) list \<Rightarrow> world \<Rightarrow> world" where
  "run [] w = w"
| "run ((sender, c) # txs) w = run txs (snd (transact sender c w))"

text \<open>
  The loop of \<^verbatim>\<open>test/CryptoVeilGame.ts\<close>,
  \<^verbatim>\<open>for (let i = 0; i < 15; i++) await game.connect(alice).move(handle, proof)\<close>:
  the same move \<open>n\<close> times, stopping at the first revert.
\<close>

fun moveTimes :: "nat \<Rightarrow> address \<Rightarrow> externalEuint32 \<Rightarrow> inputProof \<Rightarrow> world \<Rightarrow> error + world" where
  "moveTimes 0 sender directionInput inputProof w = Inr w"
| "moveTimes (Suc n) sender directionInput inputProof w =
     (case move sender directionInput inputProof w of
        Inl e \<Rightarrow> Inl e
      | Inr w' \<Rightarrow> moveTimes n sender directionInput inputProof w')"

text \<open>The calls a run of the library appends to the log of \<open>w\<close>.\<close>

definition newCalls :: "world \<Rightarrow> world \<Rightarrow> fhe_call list" where
  "newCalls w w' = drop (length (calls w)) (calls w')"

text \<open>The invariant of the board: the coordinates of a joined player are on the board.\<close>

definition onBoard :: "world \<Rightarrow> address \<Rightarrow> bool" where
  "onBoard w p =
     (MIN_COORD \<le> pos_x (positions w p) \<and> pos_x (positions w p) \<le> MAX_COORD \<and>
      MIN_COORD \<le> pos_y (positions w p) \<and> pos_y (positions w p) \<le> MAX_COORD)"

subsection \<open>What a step returns and requests\<close>

text \<open>
  The value \<open>applyStep\<close> returns and the calls it appends to the log, as functions of
  its arguments (lemma \<open>run_applyStep\<close>).
\<close>

definition stepValue :: "euint32 \<Rightarrow> ebool \<Rightarrow> ebool \<Rightarrow> euint32" where
  "stepValue current increment decrement =
     (if decrement then (if current \<le> 1 then current else current - 1)
      else if increment then (if 10 \<le> current then current else current + 1)
      else current)"

definition stepCalls :: "euint32 \<Rightarrow> ebool \<Rightarrow> ebool \<Rightarrow> fhe_call list" where
  "stepCalls current increment decrement =
     [Call_asEuint32 1, Call_add current 1, Call_sub current 1,
      Call_asEuint32 1, Call_le current 1, Call_asEuint32 10, Call_ge current 10,
      Call_select (10 \<le> current) current (current + 1),
      Call_select (current \<le> 1) current (current - 1),
      Call_select increment (if 10 \<le> current then current else current + 1) current,
      Call_select decrement (if current \<le> 1 then current else current - 1)
        (if increment then (if 10 \<le> current then current else current + 1) else current)]"

section \<open>Running the contract code\<close>

subsection \<open>Each function as a value and a log\<close>

lemmas fhe_defs = fhe_def FHE_randEuint32_def FHE_asEuint32_def FHE_rem_def FHE_add_def FHE_sub_def
  FHE_eq_def FHE_le_def FHE_ge_def FHE_select_def FHE_allowThis_def FHE_allow_def sload_def sstore_def emit_def

lemma run_applyStep:
  "run_state (applyStep c i d) w = (stepValue c i d, w\<lparr>calls := calls w @ stepCalls c i d\<rparr>)"
  by (simp add: applyStep_def fhe_defs MIN_COORD_def MAX_COORD_def stepValue_def stepCalls_def)

lemma run_randomCoordinate:
  "run_state randomCoordinate w =
     (entropy w (drawn w) mod 10 + 1,
      w\<lparr>calls := calls w @ [Call_randEuint32, Call_rem (entropy w (drawn w)) 10, Call_asEuint32 1,
           Call_add (entropy w (drawn w) mod 10) 1], drawn := Suc (drawn w)\<rparr>)"
  by (simp add: randomCoordinate_def fhe_defs MIN_COORD_def MAX_COORD_def)

lemma run_updateHorizontal:
  "run_state (updateHorizontal c dir) w =
     (stepValue c (dir = 3) (dir = 2),
      w\<lparr>calls := calls w @ [Call_asEuint32 2, Call_eq dir 2, Call_asEuint32 3, Call_eq dir 3]
          @ stepCalls c (dir = 3) (dir = 2)\<rparr>)"
  by (simp add: updateHorizontal_def fhe_defs run_applyStep)

lemma run_updateVertical:
  "run_state (updateVertical c dir) w =
     (stepValue c (dir = 0) (dir = 1),
      w\<lparr>calls := calls w @ [Call_asEuint32 0, Call_eq dir 0, Call_asEuint32 1, Call_eq dir 1]
          @ stepCalls c (dir = 0) (dir = 1)\<rparr>)"
  by (simp add: updateVertical_def fhe_defs run_applyStep)

lemma run_allowPositionAccess:
  "run_state (allowPositionAccess p) w =
     ((), w\<lparr>calls := calls w @
        [Call_allowThis (pos_x (positions w p)), Call_allowThis (pos_y (positions w p)),
         Call_allow (pos_x (positions w p)) p, Call_allow (pos_y (positions w p)) p]\<rparr>)"
  by (simp add: allowPositionAccess_def fhe_defs)

lemma joinGame_fresh:
  "\<not> hasJoinedFlag w p \<Longrightarrow> joinGame p w = Inr
    (w\<lparr>positions := (positions w)(p := \<lparr>pos_x = entropy w (drawn w) mod 10 + 1,
                                         pos_y = entropy w (Suc (drawn w)) mod 10 + 1\<rparr>),
       hasJoinedFlag := (hasJoinedFlag w)(p := True),
       events := events w @ [PlayerJoined p (entropy w (drawn w) mod 10 + 1) (entropy w (Suc (drawn w)) mod 10 + 1)],
       calls := calls w @
         [Call_randEuint32, Call_rem (entropy w (drawn w)) 10, Call_asEuint32 1,
          Call_add (entropy w (drawn w) mod 10) 1,
          Call_randEuint32, Call_rem (entropy w (Suc (drawn w))) 10, Call_asEuint32 1,
          Call_add (entropy w (Suc (drawn w)) mod 10) 1,
          Call_allowThis (entropy w (drawn w) mod 10 + 1),
          Call_allowThis (entropy w (Suc (drawn w)) mod 10 + 1),
          Call_allow (entropy w (drawn w) mod 10 + 1) p,
          Call_allow (entropy w (Suc (drawn w)) mod 10 + 1) p],
       drawn := Suc (Suc (drawn w))\<rparr>)"
  by (simp add: joinGame_def run_randomCoordinate run_allowPositionAccess sstore_def emit_def)

lemma move_accepted:
  "hasJoinedFlag w p \<Longrightarrow> move p (ExternalEuint32 v) ProofAccepted w = Inr
    (w\<lparr>positions := (positions w)(p := (positions w p)
         \<lparr>pos_x := stepValue (pos_x (positions w p)) (v mod 4 = 3) (v mod 4 = 2),
          pos_y := stepValue (pos_y (positions w p)) (v mod 4 = 0) (v mod 4 = 1)\<rparr>),
       events := events w @ [PlayerMoved p
          (stepValue (pos_x (positions w p)) (v mod 4 = 3) (v mod 4 = 2))
          (stepValue (pos_y (positions w p)) (v mod 4 = 0) (v mod 4 = 1))],
       calls := calls w @ [Call_rem v 4,
          Call_asEuint32 2, Call_eq (v mod 4) 2, Call_asEuint32 3, Call_eq (v mod 4) 3]
          @ stepCalls (pos_x (positions w p)) (v mod 4 = 3) (v mod 4 = 2)
          @ [Call_asEuint32 0, Call_eq (v mod 4) 0, Call_asEuint32 1, Call_eq (v mod 4) 1]
          @ stepCalls (pos_y (positions w p)) (v mod 4 = 0) (v mod 4 = 1)
          @ [Call_allowThis (stepValue (pos_x (positions w p)) (v mod 4 = 3) (v mod 4 = 2)),
             Call_allowThis (stepValue (pos_y (positions w p)) (v mod 4 = 0) (v mod 4 = 1)),
             Call_allow (stepValue (pos_x (positions w p)) (v mod 4 = 3) (v mod 4 = 2)) p,
             Call_allow (stepValue (pos_y (positions w p)) (v mod 4 = 0) (v mod 4 = 1)) p]\<rparr>)"
  by (simp add: move_def normalizeDirection_def DIRECTION_MODULO_def run_updateHorizontal
      run_updateVertical run_allowPositionAccess sload_def sstore_def emit_def FHE_rem_def fhe_def)

subsection \<open>Arithmetic of a step\<close>

lemma dir_cases: "(v::32 word) mod 4 = 0 \<or> v mod 4 = 1 \<or> v mod 4 = 2 \<or> v mod 4 = 3"
proof -
  have "v mod 4 < 4" by (simp add: word_mod_less_divisor)
  then show ?thesis by unat_arith
qed

lemma stepValue_idle: "stepValue c False False = c"
  by (simp add: stepValue_def)

lemma unat_ge_10: "(10::32 word) \<le> c \<longleftrightarrow> 10 \<le> unat c"
  by (simp add: word_le_nat_alt)

lemma unat_le_1: "(c::32 word) \<le> 1 \<longleftrightarrow> unat c \<le> 1"
  by (simp add: word_le_nat_alt)

lemma unat_succ: "unat (c::32 word) < 10 \<Longrightarrow> unat (c + 1) = unat c + 1"
proof -
  assume "unat c < 10"
  then have "unat c + unat (1::32 word) < 2 ^ LENGTH(32)" by simp
  then have "unat (c + 1) = unat c + unat (1::32 word)" by (simp only: unat_add_lem)
  then show ?thesis by simp
qed

lemma unat_pred: "1 \<le> unat (c::32 word) \<Longrightarrow> unat (c - 1) = unat c - 1"
proof -
  assume "1 \<le> unat c"
  then have "(1::32 word) \<le> c" by (simp add: word_le_nat_alt)
  then have "unat (c - 1) = unat c - unat (1::32 word)" by (rule unat_sub)
  then show ?thesis by simp
qed

lemma stepValue_inc:
  "unat c \<le> 10 \<Longrightarrow> unat (stepValue c True False) = (if unat c = 10 then 10 else unat c + 1)"
  by (simp add: stepValue_def unat_ge_10 unat_succ)

lemma stepValue_dec:
  "1 \<le> unat c \<Longrightarrow> unat (stepValue c i True) = (if unat c = 1 then 1 else unat c - 1)"
  by (simp add: stepValue_def unat_le_1 unat_pred)

subsection \<open>The board invariant\<close>

lemma getPlayerPosition_Inr:
  "getPlayerPosition p w = Inr (a, b) \<longleftrightarrow>
     hasJoinedFlag w p \<and> pos_x (positions w p) = a \<and> pos_y (positions w p) = b"
  by (auto simp: getPlayerPosition_def)

lemma unat_randomCoordinate:
  "unat ((r::32 word) mod 10 + 1) = unat r mod 10 + 1"
proof -
  have m: "unat (r mod 10) = unat r mod 10" by (simp add: unat_mod)
  then have "unat (r mod 10) < 10" by simp
  then have "unat (r mod 10 + 1) = unat (r mod 10) + 1" by (rule unat_succ)
  with m show ?thesis by simp
qed

lemma randomCoordinate_range:
  "1 \<le> unat ((r::32 word) mod 10 + 1) \<and> unat (r mod 10 + 1) \<le> 10"
proof -
  have "unat r mod 10 < 10" by simp
  then show ?thesis unfolding unat_randomCoordinate by linarith
qed

lemma joinGame_again: "hasJoinedFlag w p \<Longrightarrow> joinGame p w = Inl AlreadyJoined"
  by (simp add: joinGame_def)

lemma move_unjoined: "\<not> hasJoinedFlag w p \<Longrightarrow> move p di pr w = Inl NotJoined"
  by (simp add: move_def)

lemma move_rejected:
  "hasJoinedFlag w p \<Longrightarrow> move p (ExternalEuint32 v) ProofRejected w = Inl InvalidInputProof"
  by (simp add: move_def)

lemma stepValue_range:
  assumes "1 \<le> unat c" "unat c \<le> 10"
  shows "1 \<le> unat (stepValue c i d) \<and> unat (stepValue c i d) \<le> 10"
proof (cases d)
  case True
  then show ?thesis using assms stepValue_dec [OF assms(1), of i] by auto
next
  case False
  then show ?thesis using assms stepValue_inc [OF assms(2)] 
    by (cases i) (auto simp: stepValue_idle)
qed

lemma onBoard_unat:
  "onBoard w p \<longleftrightarrow>
     1 \<le> unat (pos_x (positions w p)) \<and> unat (pos_x (positions w p)) \<le> 10 \<and>
     1 \<le> unat (pos_y (positions w p)) \<and> unat (pos_y (positions w p)) \<le> 10"
  by (simp add: onBoard_def MIN_COORD_def MAX_COORD_def word_le_nat_alt)

lemma joinGame_onBoard:
  assumes inv: "\<And>q. hasJoinedFlag w q \<Longrightarrow> onBoard w q"
    and ok: "joinGame s w = Inr w'" and j: "hasJoinedFlag w' q"
  shows "onBoard w' q"
proof -
  from ok have nj: "\<not> hasJoinedFlag w s" by (auto simp: joinGame_def split: if_splits)
  from joinGame_fresh [OF nj] ok have
    P: "positions w' = (positions w)(s := \<lparr>pos_x = entropy w (drawn w) mod 10 + 1,
                                         pos_y = entropy w (Suc (drawn w)) mod 10 + 1\<rparr>)"
    and F: "hasJoinedFlag w' = (hasJoinedFlag w)(s := True)" by auto
  show ?thesis
  proof (cases "q = s")
    case True
    then show ?thesis
      using randomCoordinate_range [of "entropy w (drawn w)"]
        randomCoordinate_range [of "entropy w (Suc (drawn w))"]
      by (simp add: onBoard_unat P)
  next
    case False
    with j F have "hasJoinedFlag w q" by simp
    from inv [OF this] False show ?thesis by (simp add: onBoard_unat P)
  qed
qed

lemma move_Inr_cases:
  assumes "move s di pr w = Inr w'"
  obtains v where "hasJoinedFlag w s" "di = ExternalEuint32 v" "pr = ProofAccepted"
proof -
  obtain v where di: "di = ExternalEuint32 v" by (cases di)
  from assms have "hasJoinedFlag w s" by (auto simp: move_def split: if_splits)
  moreover from assms di have "pr = ProofAccepted"
    by (cases pr) (auto simp: move_def split: if_splits)
  ultimately show ?thesis using di that by blast
qed

lemma move_onBoard:
  assumes inv: "\<And>q. hasJoinedFlag w q \<Longrightarrow> onBoard w q"
    and ok: "move s di pr w = Inr w'" and j: "hasJoinedFlag w' q"
  shows "onBoard w' q"
proof -
  from ok obtain v where js: "hasJoinedFlag w s" and di: "di = ExternalEuint32 v"
    and pr: "pr = ProofAccepted" by (rule move_Inr_cases)
  from move_accepted [OF js, of v] ok di pr have
    P: "positions w' = (positions w)(s := (positions w s)
         \<lparr>pos_x := stepValue (pos_x (positions w s)) (v mod 4 = 3) (v mod 4 = 2),
          pos_y := stepValue (pos_y (positions w s)) (v mod 4 = 0) (v mod 4 = 1)\<rparr>)"
    and F: "hasJoinedFlag w' = hasJoinedFlag w" by auto
  show ?thesis
  proof (cases "q = s")
    case True
    from inv [OF js] have
      "1 \<le> unat (pos_x (positions w s))" "unat (pos_x (positions w s)) \<le> 10"
      "1 \<le> unat (pos_y (positions w s))" "unat (pos_y (positions w s)) \<le> 10"
      by (simp_all add: onBoard_unat)
    then show ?thesis
      using stepValue_range [of "pos_x (positions w s)" "v mod 4 = 3" "v mod 4 = 2"]
        stepValue_range [of "pos_y (positions w s)" "v mod 4 = 0" "v mod 4 = 1"]
      by (simp add: onBoard_unat P True)
  next
    case False
    from j F have "hasJoinedFlag w q" by simp
    from inv [OF this] False show ?thesis by (simp add: onBoard_unat P)
  qed
qed

lemma transact_onBoard:
  assumes inv: "\<And>q. hasJoinedFlag w q \<Longrightarrow> onBoard w q"
    and j: "hasJoinedFlag (snd (transact s c w)) q"
  shows "onBoard (snd (transact s c w)) q"
proof (cases "execute s c w")
  case (Inl e)
  then show ?thesis using inv j by (simp add: transact_def)
next
  case (Inr w')
  then have t: "snd (transact s c w) = w'" by (simp add: transact_def)
  show ?thesis
  proof (cases c)
    case JoinGame
    with Inr have "joinGame s w = Inr w'" by simp
    from joinGame_onBoard [OF inv this] j t show ?thesis by simp
  next
    case (Move di pr)
    with Inr have "move s di pr w = Inr w'" by simp
    from move_onBoard [OF inv this] j t show ?thesis by simp
  qed
qed

lemma run_onBoard:
  "(\<And>q. hasJoinedFlag w q \<Longrightarrow> onBoard w q) \<Longrightarrow> hasJoinedFlag (run txs w) p \<Longrightarrow> onBoard (run txs w) p"
proof (induction txs arbitrary: w)
  case Nil
  then show ?case by simp
next
  case (Cons tx txs)
  obtain s c where tx: "tx = (s, c)" by (cases tx)
  have "\<And>q. hasJoinedFlag (snd (transact s c w)) q \<Longrightarrow> onBoard (snd (transact s c w)) q"
    using transact_onBoard Cons.prems(1) by blast
  from Cons.IH [OF this] Cons.prems(2) tx show ?case by simp
qed

subsection \<open>Frame, logs and repeated moves\<close>

lemma transact_frame:
  assumes "p \<noteq> q"
  shows "hasJoinedFlag (snd (transact p c w)) q = hasJoinedFlag w q \<and>
         positions (snd (transact p c w)) q = positions w q"
proof (cases c)
  case JoinGame
  show ?thesis
  proof (cases "hasJoinedFlag w p")
    case True
    with JoinGame show ?thesis by (simp add: transact_def joinGame_again)
  next
    case False
    with JoinGame assms show ?thesis by (simp add: transact_def joinGame_fresh)
  qed
next
  case (Move di pr)
  obtain v where di: "di = ExternalEuint32 v" by (cases di)
  show ?thesis
  proof (cases "hasJoinedFlag w p")
    case False
    with Move show ?thesis by (simp add: transact_def move_unjoined)
  next
    case True
    with Move di assms show ?thesis
      by (cases pr) (simp_all add: transact_def move_accepted move_rejected)
  qed
qed

lemma newCalls_applyStep: "newCalls w (snd (run_state (applyStep c i d) w)) = stepCalls c i d"
  by (simp add: run_applyStep newCalls_def)

lemma newCalls_joinGame:
  "\<not> hasJoinedFlag w p \<Longrightarrow> joinGame p w = Inr w' \<Longrightarrow> newCalls w w' =
     [Call_randEuint32, Call_rem (entropy w (drawn w)) 10, Call_asEuint32 1,
      Call_add (entropy w (drawn w) mod 10) 1,
      Call_randEuint32, Call_rem (entropy w (Suc (drawn w))) 10, Call_asEuint32 1,
      Call_add (entropy w (Suc (drawn w)) mod 10) 1,
      Call_allowThis (entropy w (drawn w) mod 10 + 1),
      Call_allowThis (entropy w (Suc (drawn w)) mod 10 + 1),
      Call_allow (entropy w (drawn w) mod 10 + 1) p,
      Call_allow (entropy w (Suc (drawn w)) mod 10 + 1) p]"
  by (auto simp add: joinGame_fresh newCalls_def)

lemma fst_applyStep: "fst (run_state (applyStep c i d) w) = stepValue c i d"
  by (simp add: run_applyStep)

lemma stepValue_no_wrap:
  "stepValue c i d = c \<or>
   (unat c < 10 \<and> unat (stepValue c i d) = unat c + 1) \<or>
   (1 < unat c \<and> unat (stepValue c i d) + 1 = unat c)"
proof (cases d)
  case True
  show ?thesis
  proof (cases "c \<le> 1")
    case True
    with \<open>d\<close> show ?thesis by (simp add: stepValue_def)
  next
    case False
    then have "1 < unat c" by (simp add: unat_le_1)
    moreover from this have "unat (c - 1) = unat c - 1" by (simp add: unat_pred)
    ultimately show ?thesis using \<open>d\<close> False by (simp add: stepValue_def)
  qed
next
  case False
  show ?thesis
  proof (cases "i \<and> \<not> 10 \<le> c")
    case True
    then have "unat c < 10" by (simp add: unat_ge_10)
    moreover from this have "unat (c + 1) = unat c + 1" by (rule unat_succ)
    ultimately show ?thesis using \<open>\<not> d\<close> True by (simp add: stepValue_def)
  next
    case False
    with \<open>\<not> d\<close> show ?thesis by (auto simp add: stepValue_def)
  qed
qed

lemma newCalls_move:
  "hasJoinedFlag w p \<Longrightarrow> move p (ExternalEuint32 v) ProofAccepted w = Inr w' \<Longrightarrow>
     newCalls w w' = 
          [Call_rem v 4,
           Call_asEuint32 2, Call_eq (v mod 4) 2, Call_asEuint32 3, Call_eq (v mod 4) 3]
          @ stepCalls (pos_x (positions w p)) (v mod 4 = 3) (v mod 4 = 2)
          @ [Call_asEuint32 0, Call_eq (v mod 4) 0, Call_asEuint32 1, Call_eq (v mod 4) 1]
          @ stepCalls (pos_y (positions w p)) (v mod 4 = 0) (v mod 4 = 1)
          @ [Call_allowThis (stepValue (pos_x (positions w p)) (v mod 4 = 3) (v mod 4 = 2)),
             Call_allowThis (stepValue (pos_y (positions w p)) (v mod 4 = 0) (v mod 4 = 1)),
             Call_allow (stepValue (pos_x (positions w p)) (v mod 4 = 3) (v mod 4 = 2)) p,
             Call_allow (stepValue (pos_y (positions w p)) (v mod 4 = 0) (v mod 4 = 1)) p]"
  by (auto simp add: move_accepted newCalls_def)

lemma ops_stepCalls:
  "map op_of (stepCalls c i d) =
     [Op_asEuint32, Op_add, Op_sub, Op_asEuint32, Op_le, Op_asEuint32, Op_ge,
      Op_select, Op_select, Op_select, Op_select]"
  by (simp add: stepCalls_def)

lemma moveTimes_accepted:
  "hasJoinedFlag w p \<Longrightarrow>
   \<exists>w'. moveTimes n p (ExternalEuint32 v) ProofAccepted w = Inr w' \<and> hasJoinedFlag w' p \<and>
     pos_x (positions w' p) =
       ((\<lambda>c. stepValue c (v mod 4 = 3) (v mod 4 = 2)) ^^ n) (pos_x (positions w p)) \<and>
     pos_y (positions w' p) =
       ((\<lambda>c. stepValue c (v mod 4 = 0) (v mod 4 = 1)) ^^ n) (pos_y (positions w p))"
proof (induction n arbitrary: w)
  case 0
  then show ?case by simp
next
  case (Suc n)
  obtain w1 where m: "move p (ExternalEuint32 v) ProofAccepted w = Inr w1"
    using move_accepted [OF Suc.prems, of v] by simp
  with move_accepted [OF Suc.prems, of v] have j1: "hasJoinedFlag w1 p"
    and x1: "pos_x (positions w1 p) = stepValue (pos_x (positions w p)) (v mod 4 = 3) (v mod 4 = 2)"
    and y1: "pos_y (positions w1 p) = stepValue (pos_y (positions w p)) (v mod 4 = 0) (v mod 4 = 1)"
    using Suc.prems by auto
  from Suc.IH [OF j1] obtain w' where
    "moveTimes n p (ExternalEuint32 v) ProofAccepted w1 = Inr w'" "hasJoinedFlag w' p"
    "pos_x (positions w' p) =
       ((\<lambda>c. stepValue c (v mod 4 = 3) (v mod 4 = 2)) ^^ n) (pos_x (positions w1 p))"
    "pos_y (positions w' p) =
       ((\<lambda>c. stepValue c (v mod 4 = 0) (v mod 4 = 1)) ^^ n) (pos_y (positions w1 p))"
    by blast
  with m x1 y1 show ?case
    using funpow_swap1 [of "\<lambda>c. stepValue c (v mod 4 = 3) (v mod 4 = 2)" n "pos_x (positions w p)"]
      funpow_swap1 [of "\<lambda>c. stepValue c (v mod 4 = 0) (v mod 4 = 1)" n "pos_y (positions w p)"]
    by simp
qed

lemma idle_iter: "((\<lambda>c. stepValue c False False) ^^ n) c = c"
  by (induction n) (simp_all add: stepValue_idle)

lemma inc_iter:
  "unat c \<le> 10 \<Longrightarrow> unat (((\<lambda>c. stepValue c True False) ^^ n) c) = min 10 (unat c + n)"
proof (induction n)
  case 0
  then show ?case by simp
next
  case (Suc n)
  let ?m = "((\<lambda>c. stepValue c True False) ^^ n) c"
  from Suc have ih: "unat ?m = min 10 (unat c + n)" by simp
  then have "unat ?m \<le> 10" by simp
  from stepValue_inc [OF this] ih show ?case by simp
qed

lemma dec_iter:
  "1 \<le> unat c \<Longrightarrow> unat (((\<lambda>c. stepValue c i True) ^^ n) c) = max 1 (unat c - n)"
proof (induction n)
  case 0
  then show ?case by simp
next
  case (Suc n)
  let ?m = "((\<lambda>c. stepValue c i True) ^^ n) c"
  from Suc have ih: "unat ?m = max 1 (unat c - n)" by simp
  then have "1 \<le> unat ?m" by simp
  from stepValue_dec [OF this, of i] ih show ?case by (auto simp add: max_def)
qed

lemma unat_is_10: "unat (c::32 word) = 10 \<longleftrightarrow> c = 10"
  using word_unat_eq_iff [of c 10] by simp

lemma unat_is_1: "unat (c::32 word) = Suc 0 \<longleftrightarrow> c = 1"
  using word_unat_eq_iff [of c 1] by simp

subsection \<open>Additions and subtractions of the log\<close>

lemma stepCalls_no_wrap:
  assumes "1 \<le> unat c" "unat c \<le> 10"
  shows "\<forall>k \<in> set (stepCalls c i d). \<not> wraps k"
  using assms by (simp add: stepCalls_def)

lemma joinGame_no_wrap:
  assumes nj: "\<not> hasJoinedFlag w p" and nw: "\<forall>k \<in> set (calls w). \<not> wraps k"
    and j: "joinGame p w = Inr w'"
  shows "\<forall>k \<in> set (calls w'). \<not> wraps k"
proof -
  have r: "unat (entropy w n mod 10) \<le> 9" for n by (simp add: unat_mod)
  from joinGame_fresh [OF nj] j have
    "calls w' = calls w @
         [Call_randEuint32, Call_rem (entropy w (drawn w)) 10, Call_asEuint32 1,
          Call_add (entropy w (drawn w) mod 10) 1,
          Call_randEuint32, Call_rem (entropy w (Suc (drawn w))) 10, Call_asEuint32 1,
          Call_add (entropy w (Suc (drawn w)) mod 10) 1,
          Call_allowThis (entropy w (drawn w) mod 10 + 1),
          Call_allowThis (entropy w (Suc (drawn w)) mod 10 + 1),
          Call_allow (entropy w (drawn w) mod 10 + 1) p,
          Call_allow (entropy w (Suc (drawn w)) mod 10 + 1) p]" by auto
  with nw r [of "drawn w"] r [of "Suc (drawn w)"] show ?thesis by simp
qed

lemma move_no_wrap:
  assumes j: "hasJoinedFlag w p" and b: "onBoard w p"
    and nw: "\<forall>k \<in> set (calls w). \<not> wraps k"
    and m: "move p (ExternalEuint32 v) ProofAccepted w = Inr w'"
  shows "\<forall>k \<in> set (calls w'). \<not> wraps k"
proof -
  from b have bx: "1 \<le> unat (pos_x (positions w p))" "unat (pos_x (positions w p)) \<le> 10"
    and yb: "1 \<le> unat (pos_y (positions w p))" "unat (pos_y (positions w p)) \<le> 10"
    by (simp_all add: onBoard_unat)
  have c: "calls w' = calls w @ newCalls w w'"
    using move_accepted [OF j, of v] m by (auto simp add: newCalls_def)
  have "\<forall>k \<in> set (newCalls w w'). \<not> wraps k"
    unfolding newCalls_move [OF j m]
    using stepCalls_no_wrap [OF bx, of "v mod 4 = 3" "v mod 4 = 2"]
      stepCalls_no_wrap [OF yb, of "v mod 4 = 0" "v mod 4 = 1"] by auto
  with nw c show ?thesis by auto
qed

lemma transact_no_wrap:
  assumes inv: "\<And>q. hasJoinedFlag w q \<Longrightarrow> onBoard w q"
    and nw: "\<forall>k \<in> set (calls w). \<not> wraps k"
  shows "\<forall>k \<in> set (calls (snd (transact s c w))). \<not> wraps k"
proof (cases "execute s c w")
  case (Inl e)
  then show ?thesis using nw by (simp add: transact_def)
next
  case (Inr w')
  then have t: "snd (transact s c w) = w'" by (simp add: transact_def)
  show ?thesis
  proof (cases c)
    case JoinGame
    with Inr have j: "joinGame s w = Inr w'" by simp
    then have "\<not> hasJoinedFlag w s" by (auto simp: joinGame_def split: if_splits)
    from joinGame_no_wrap [OF this nw j] t show ?thesis by simp
  next
    case (Move di pr)
    with Inr have m: "move s di pr w = Inr w'" by simp
    then obtain v where js: "hasJoinedFlag w s" and di: "di = ExternalEuint32 v"
      and pr: "pr = ProofAccepted" by (rule move_Inr_cases)
    from move_no_wrap [OF js inv [OF js] nw] m di pr t show ?thesis by simp
  qed
qed

lemma run_no_wrap:
  "(\<And>q. hasJoinedFlag w q \<Longrightarrow> onBoard w q) \<Longrightarrow> \<forall>k \<in> set (calls w). \<not> wraps k \<Longrightarrow>
   \<forall>k \<in> set (calls (run txs w)). \<not> wraps k"
proof (induction txs arbitrary: w)
  case Nil
  then show ?case by simp
next
  case (Cons tx txs)
  obtain s c where tx: "tx = (s, c)" by (cases tx)
  have b: "\<And>q. hasJoinedFlag (snd (transact s c w)) q \<Longrightarrow> onBoard (snd (transact s c w)) q"
    using transact_onBoard Cons.prems(1) by blast
  have n: "\<forall>k \<in> set (calls (snd (transact s c w))). \<not> wraps k"
    using transact_no_wrap Cons.prems by blast
  from Cons.IH [OF b n] tx show ?case by simp
qed

lemma code_unat: "(d :: 32 word) mod 4 = k \<longleftrightarrow> unat d mod 4 = unat k"
  using word_unat_eq_iff [of "d mod 4" k] by (simp add: unat_mod)

lemma run_normalizeDirection:
  "run_state (normalizeDirection d) w = (d mod 4, w\<lparr>calls := calls w @ [Call_rem d 4]\<rparr>)"
  by (simp add: normalizeDirection_def DIRECTION_MODULO_def FHE_rem_def fhe_def)

section \<open>The claims\<close>

text \<open>
  C1. For a joined player at \<open>(cx, cy)\<close> with both coordinates in \<open>[1, 10]\<close> and any
  direction input \<open>d\<close>, whose normalised code \<open>d mod 4\<close> is one of 0 (up), 1 (down),
  2 (left), 3 (right), a move changes one axis only, by one: up increments \<open>y\<close> and
  keeps \<open>x\<close>, down decrements \<open>y\<close> and keeps \<open>x\<close>, left decrements \<open>x\<close> and keeps
  \<open>y\<close>, right increments \<open>x\<close> and keeps \<open>y\<close>; an increment from 10 leaves 10 and a
  decrement from 1 leaves 1. The new coordinates are read as natural numbers, so the
  increment and the decrement are exact, not modular.
\<close>

theorem move_changes_one_axis:
  assumes pos: "getPlayerPosition p w = Inr (cx, cy)"
    and bx: "1 \<le> unat cx" "unat cx \<le> 10" and ybnd: "1 \<le> unat cy" "unat cy \<le> 10"
  shows "\<exists>w' nx ny. move p (ExternalEuint32 d) ProofAccepted w = Inr w' \<and>
           getPlayerPosition p w' = Inr (nx, ny) \<and>
           (d mod 4 = 0 \<or> d mod 4 = 1 \<or> d mod 4 = 2 \<or> d mod 4 = 3) \<and>
           (d mod 4 = 0 \<longrightarrow> nx = cx \<and> unat ny = (if unat cy = 10 then 10 else unat cy + 1)) \<and>
           (d mod 4 = 1 \<longrightarrow> nx = cx \<and> unat ny = (if unat cy = 1 then 1 else unat cy - 1)) \<and>
           (d mod 4 = 2 \<longrightarrow> ny = cy \<and> unat nx = (if unat cx = 1 then 1 else unat cx - 1)) \<and>
           (d mod 4 = 3 \<longrightarrow> ny = cy \<and> unat nx = (if unat cx = 10 then 10 else unat cx + 1))"
proof -
  from pos have j: "hasJoinedFlag w p" and x: "pos_x (positions w p) = cx"
    and y: "pos_y (positions w p) = cy"
    by (simp_all add: getPlayerPosition_Inr)
  let ?nx = "stepValue cx (d mod 4 = 3) (d mod 4 = 2)"
  let ?ny = "stepValue cy (d mod 4 = 0) (d mod 4 = 1)"
  obtain w' where m: "move p (ExternalEuint32 d) ProofAccepted w = Inr w'"
    and px: "pos_x (positions w' p) = ?nx" and py: "pos_y (positions w' p) = ?ny"
    and j': "hasJoinedFlag w' p"
    using move_accepted [OF j, of d] j x y by simp
  have g: "getPlayerPosition p w' = Inr (?nx, ?ny)"
    using px py j' by (simp add: getPlayerPosition_Inr)
  have up: "d mod 4 = 0 \<longrightarrow> ?nx = cx \<and> unat ?ny = (if unat cy = 10 then 10 else unat cy + 1)"
    using stepValue_inc [OF ybnd(2)] by (simp add: stepValue_idle)
  have down: "d mod 4 = 1 \<longrightarrow> ?nx = cx \<and> unat ?ny = (if unat cy = 1 then 1 else unat cy - 1)"
    using stepValue_dec [OF ybnd(1)] by (simp add: stepValue_idle)
  have left: "d mod 4 = 2 \<longrightarrow> ?ny = cy \<and> unat ?nx = (if unat cx = 1 then 1 else unat cx - 1)"
    using stepValue_dec [OF bx(1)] by (simp add: stepValue_idle)
  have right: "d mod 4 = 3 \<longrightarrow> ?ny = cy \<and> unat ?nx = (if unat cx = 10 then 10 else unat cx + 1)"
    using stepValue_inc [OF bx(2)] by (simp add: stepValue_idle)
  show ?thesis
    apply (rule exI [of _ w'], rule exI [of _ ?nx], rule exI [of _ ?ny])
    using m g dir_cases [of d] up down left right apply (intro conjI)
          apply assumption+
    done
qed

text \<open>
  A player who joins a fresh deployment with the random words 8 and 9 starts at
  \<open>(9, 10)\<close>; the direction input 4 is normalised to 0 (up) and leaves the player there.
\<close>

theorem move_changes_one_axis_witness:
  "getPlayerPosition 1 (run [(1, JoinGame)] (deployed (\<lambda>n. of_nat n + 8))) = Inr (9, 10) \<and>
   (\<exists>w' ny. move 1 (ExternalEuint32 4) ProofAccepted (run [(1, JoinGame)] (deployed (\<lambda>n. of_nat n + 8))) = Inr w'
      \<and> getPlayerPosition 1 w' = Inr (9, ny) \<and> unat ny = 10)"
proof -
  have g: "getPlayerPosition 1 (run [(1, JoinGame)] (deployed (\<lambda>n. of_nat n + 8))) = Inr (9, 10)"
    by (simp add: transact_def joinGame_fresh deployed_def getPlayerPosition_def)
  show ?thesis
    using g move_changes_one_axis [OF g, of 4] by auto
qed

text \<open>
  C2. After any sequence of transactions on a fresh deployment (joins and moves by any
  senders with any direction inputs and proofs, reverted ones included), every player
  whose joined flag is set has both stored coordinates in \<open>[1, 10]\<close>: a join
  establishes this for its sender (lemma \<open>joinGame_onBoard\<close>) and a move preserves it
  (lemma \<open>move_onBoard\<close>).
\<close>

theorem joined_players_stay_on_board:
  assumes "hasJoined p (run txs (deployed rnd))"
  shows "\<exists>a b. getPlayerPosition p (run txs (deployed rnd)) = Inr (a, b) \<and>
           1 \<le> unat a \<and> unat a \<le> 10 \<and> 1 \<le> unat b \<and> unat b \<le> 10"
proof -
  from assms have j: "hasJoinedFlag (run txs (deployed rnd)) p" by (simp add: hasJoined_def)
  have "\<And>q. hasJoinedFlag (deployed rnd) q \<Longrightarrow> onBoard (deployed rnd) q"
    by (simp add: deployed_def)
  from run_onBoard [OF this j] j show ?thesis
    by (simp add: onBoard_unat getPlayerPosition_def)
qed

text \<open>
  Two joins, a move to the right, a second join of the first player (reverted) and a move
  of a player who never joined (reverted).
\<close>

theorem joined_players_stay_on_board_witness:
  "hasJoined 1 (run [(1, JoinGame), (2, JoinGame), (1, Move (ExternalEuint32 7) ProofAccepted),
                      (1, JoinGame), (3, Move (ExternalEuint32 0) ProofAccepted)]
                 (deployed (\<lambda>n. of_nat (13 * n)))) \<and>
   (\<exists>a b. getPlayerPosition 1 (run [(1, JoinGame), (2, JoinGame), (1, Move (ExternalEuint32 7) ProofAccepted),
                      (1, JoinGame), (3, Move (ExternalEuint32 0) ProofAccepted)]
                 (deployed (\<lambda>n. of_nat (13 * n)))) = Inr (a, b) \<and>
           1 \<le> unat a \<and> unat a \<le> 10 \<and> 1 \<le> unat b \<and> unat b \<le> 10)"
proof -
  have j: "hasJoined 1 (run [(1, JoinGame), (2, JoinGame), (1, Move (ExternalEuint32 7) ProofAccepted),
                      (1, JoinGame), (3, Move (ExternalEuint32 0) ProofAccepted)]
                 (deployed (\<lambda>n. of_nat (13 * n))))"
    by (simp add: hasJoined_def transact_def joinGame_fresh joinGame_again move_accepted
        move_unjoined deployed_def)
  from j joined_players_stay_on_board [OF j] show ?thesis by simp
qed

text \<open>
  C3. \<open>joinGame\<close> fails, with the revert the specification calls AlreadyJoined, exactly
  when the joined flag of the caller is set; \<open>move\<close> fails with NotJoined exactly when
  the flag of the caller is not set (with an accepted input proof it fails in no other
  case); \<open>getPlayerPosition\<close> fails with UnknownPlayer exactly when the flag of the
  queried player is not set. A failed transaction leaves the whole state as it was: no
  player record and no flag is modified.
\<close>

theorem operations_fail_on_violated_precondition:
  "(joinGame p w = Inl AlreadyJoined \<longleftrightarrow> hasJoined p w) \<and>
   ((\<exists>e. joinGame p w = Inl e) \<longleftrightarrow> hasJoined p w) \<and>
   (move p di pr w = Inl NotJoined \<longleftrightarrow> \<not> hasJoined p w) \<and>
   ((\<exists>e. move p di ProofAccepted w = Inl e) \<longleftrightarrow> \<not> hasJoined p w) \<and>
   (getPlayerPosition q w = Inl UnknownPlayer \<longleftrightarrow> \<not> hasJoined q w) \<and>
   ((\<exists>e. getPlayerPosition q w = Inl e) \<longleftrightarrow> \<not> hasJoined q w) \<and>
   (fst (transact p c w) \<noteq> None \<longrightarrow> snd (transact p c w) = w)"
proof -
  obtain v where di: "di = ExternalEuint32 v" by (cases di)
  have j: "(joinGame p w = Inl AlreadyJoined \<longleftrightarrow> hasJoined p w) \<and>
           ((\<exists>e. joinGame p w = Inl e) \<longleftrightarrow> hasJoined p w)"
    by (simp add: joinGame_def hasJoined_def)
  have m1: "move p di pr w = Inl NotJoined \<longleftrightarrow> \<not> hasJoined p w"
    using di by (cases pr) (simp_all add: move_def hasJoined_def)
  have m2: "(\<exists>e. move p di ProofAccepted w = Inl e) \<longleftrightarrow> \<not> hasJoined p w"
    using di by (simp add: move_def hasJoined_def)
  have g: "(getPlayerPosition q w = Inl UnknownPlayer \<longleftrightarrow> \<not> hasJoined q w) \<and>
           ((\<exists>e. getPlayerPosition q w = Inl e) \<longleftrightarrow> \<not> hasJoined q w)"
    by (simp add: getPlayerPosition_def hasJoined_def)
  have t: "fst (transact p c w) \<noteq> None \<longrightarrow> snd (transact p c w) = w"
    by (simp add: transact_def split: sum.splits)
  from j m1 m2 g t show ?thesis by simp
qed

text \<open>
  On a fresh deployment a move of player 1 is reverted with NotJoined and leaves the
  state as it was; so is a second join after the first.
\<close>

theorem operations_fail_on_violated_precondition_witness:
  "fst (transact 1 (Move (ExternalEuint32 0) ProofAccepted) (deployed (\<lambda>n. 0))) = Some NotJoined \<and>
   snd (transact 1 (Move (ExternalEuint32 0) ProofAccepted) (deployed (\<lambda>n. 0))) = deployed (\<lambda>n. 0) \<and>
   fst (transact 1 JoinGame (run [(1, JoinGame)] (deployed (\<lambda>n. 0)))) = Some AlreadyJoined \<and>
   snd (transact 1 JoinGame (run [(1, JoinGame)] (deployed (\<lambda>n. 0)))) = run [(1, JoinGame)] (deployed (\<lambda>n. 0))"
proof -
  have a: "fst (transact 1 (Move (ExternalEuint32 0) ProofAccepted) (deployed (\<lambda>n. 0))) = Some NotJoined"
    by (simp add: transact_def move_unjoined deployed_def)
  have b: "fst (transact 1 JoinGame (run [(1, JoinGame)] (deployed (\<lambda>n. 0)))) = Some AlreadyJoined"
    by (simp add: transact_def joinGame_fresh joinGame_again deployed_def)
  from a b
    operations_fail_on_violated_precondition
      [of 1 "deployed (\<lambda>n. 0)" "ExternalEuint32 0" ProofAccepted 1 "Move (ExternalEuint32 0) ProofAccepted"]
    operations_fail_on_violated_precondition
      [of 1 "run [(1, JoinGame)] (deployed (\<lambda>n. 0))" "ExternalEuint32 0" ProofAccepted 1 JoinGame]
  show ?thesis by simp
qed

text \<open>
  C4. \<open>move\<close> is total in the direction: for a joined caller and an input whose proof
  is accepted, the move succeeds whatever 32-bit direction \<open>d\<close> the input carries. The
  first operation it requests is the remainder of \<open>d\<close> by 4; the normalised direction
  is \<open>d mod 4\<close>, as a natural number the remainder of \<open>d\<close> by 4, one of 0, 1, 2, 3, and
  it is this value the step flags are compared with. The stored positions afterwards
  are those the move produces for the canonical code \<open>d mod 4\<close>, and the move acts as
  that code: 0 steps \<open>y\<close> up and keeps \<open>x\<close>, 1 steps \<open>y\<close> down and keeps \<open>x\<close>, 2 steps
  \<open>x\<close> down (left) and keeps \<open>y\<close>, 3 steps \<open>x\<close> up (right) and keeps \<open>y\<close>, each step
  clamped by the board limits.
\<close>

theorem move_total_in_direction:
  assumes "hasJoined p w"
  shows "\<exists>w' w'' nx ny. move p (ExternalEuint32 d) ProofAccepted w = Inr w' \<and>
           move p (ExternalEuint32 (d mod 4)) ProofAccepted w = Inr w'' \<and>
           positions w' = positions w'' \<and> hasJoinedFlag w' = hasJoinedFlag w'' \<and>
           getPlayerPosition p w' = getPlayerPosition p w'' \<and>
           unat (d mod 4) = unat d mod 4 \<and> unat (d mod 4) < 4 \<and>
           fst (run_state (normalizeDirection d) w) = d mod 4 \<and>
           unat (fst (run_state (normalizeDirection d) w)) = unat d mod 4 \<and>
           take 5 (newCalls w w') =
             [Call_rem d 4, Call_asEuint32 2, Call_eq (d mod 4) 2,
              Call_asEuint32 3, Call_eq (d mod 4) 3] \<and>
           Call_eq (d mod 4) 0 \<in> set (newCalls w w') \<and>
           Call_eq (d mod 4) 1 \<in> set (newCalls w w') \<and>
           getPlayerPosition p w' = Inr (nx, ny) \<and>
           (unat d mod 4 = 0 \<longrightarrow> nx = pos_x (positions w p) \<and>
              ny = (if MAX_COORD \<le> pos_y (positions w p) then pos_y (positions w p)
                    else pos_y (positions w p) + 1)) \<and>
           (unat d mod 4 = 1 \<longrightarrow> nx = pos_x (positions w p) \<and>
              ny = (if pos_y (positions w p) \<le> MIN_COORD then pos_y (positions w p)
                    else pos_y (positions w p) - 1)) \<and>
           (unat d mod 4 = 2 \<longrightarrow> ny = pos_y (positions w p) \<and>
              nx = (if pos_x (positions w p) \<le> MIN_COORD then pos_x (positions w p)
                    else pos_x (positions w p) - 1)) \<and>
           (unat d mod 4 = 3 \<longrightarrow> ny = pos_y (positions w p) \<and>
              nx = (if MAX_COORD \<le> pos_x (positions w p) then pos_x (positions w p)
                    else pos_x (positions w p) + 1))"
proof -
  from assms have j: "hasJoinedFlag w p" by (simp add: hasJoined_def)
  let ?cx = "pos_x (positions w p)" and ?cy = "pos_y (positions w p)"
  let ?nx = "stepValue ?cx (d mod 4 = 3) (d mod 4 = 2)"
  let ?ny = "stepValue ?cy (d mod 4 = 0) (d mod 4 = 1)"
  have u: "unat (d mod 4) = unat d mod 4" by (simp add: unat_mod)
  then have l: "unat (d mod 4) < 4" by simp
  have "d mod 4 < 4" by (simp add: word_mod_less_divisor)
  then have mm: "d mod 4 mod 4 = d mod 4" by (rule mod_word_less)
  have same: "positions w' = positions w'' \<and> hasJoinedFlag w' = hasJoinedFlag w'' \<and>
      getPlayerPosition p w' = getPlayerPosition p w''"
    if "move p (ExternalEuint32 d) ProofAccepted w = Inr w'"
      and "move p (ExternalEuint32 (d mod 4)) ProofAccepted w = Inr w''" for w' w''
    using that unfolding move_accepted [OF j] mm by (auto simp: getPlayerPosition_def)
  obtain w' where a: "move p (ExternalEuint32 d) ProofAccepted w = Inr w'"
    using move_accepted [OF j, of d] by simp
  obtain w'' where b: "move p (ExternalEuint32 (d mod 4)) ProofAccepted w = Inr w''"
    using move_accepted [OF j, of "d mod 4"] by simp
  have n: "fst (run_state (normalizeDirection d) w) = d mod 4"
    by (simp add: run_normalizeDirection)
  have nu: "unat (fst (run_state (normalizeDirection d) w)) = unat d mod 4"
    unfolding n by (rule u)
  have log: "take 5 (newCalls w w') =
      [Call_rem d 4, Call_asEuint32 2, Call_eq (d mod 4) 2, Call_asEuint32 3, Call_eq (d mod 4) 3]"
    "Call_eq (d mod 4) 0 \<in> set (newCalls w w')" "Call_eq (d mod 4) 1 \<in> set (newCalls w w')"
    unfolding newCalls_move [OF j a] by simp_all
  have g: "getPlayerPosition p w' = Inr (?nx, ?ny)"
    using move_accepted [OF j, of d] a j by (auto simp add: getPlayerPosition_def)
  have up: "unat d mod 4 = 0 \<longrightarrow> ?nx = ?cx \<and>
      ?ny = (if MAX_COORD \<le> ?cy then ?cy else ?cy + 1)"
  proof
    assume "unat d mod 4 = 0"
    then have z: "d mod 4 = 0" by (simp add: code_unat)
    show "?nx = ?cx \<and> ?ny = (if MAX_COORD \<le> ?cy then ?cy else ?cy + 1)"
      unfolding z by (simp add: stepValue_def MAX_COORD_def)
  qed
  have down: "unat d mod 4 = 1 \<longrightarrow> ?nx = ?cx \<and>
      ?ny = (if ?cy \<le> MIN_COORD then ?cy else ?cy - 1)"
  proof
    assume "unat d mod 4 = 1"
    then have z: "d mod 4 = 1" by (simp add: code_unat)
    show "?nx = ?cx \<and> ?ny = (if ?cy \<le> MIN_COORD then ?cy else ?cy - 1)"
      unfolding z by (simp add: stepValue_def MIN_COORD_def)
  qed
  have left: "unat d mod 4 = 2 \<longrightarrow> ?ny = ?cy \<and>
      ?nx = (if ?cx \<le> MIN_COORD then ?cx else ?cx - 1)"
  proof
    assume "unat d mod 4 = 2"
    then have z: "d mod 4 = 2" by (simp add: code_unat)
    show "?ny = ?cy \<and> ?nx = (if ?cx \<le> MIN_COORD then ?cx else ?cx - 1)"
      unfolding z by (simp add: stepValue_def MIN_COORD_def)
  qed
  have right: "unat d mod 4 = 3 \<longrightarrow> ?ny = ?cy \<and>
      ?nx = (if MAX_COORD \<le> ?cx then ?cx else ?cx + 1)"
  proof
    assume "unat d mod 4 = 3"
    then have z: "d mod 4 = 3" by (simp add: code_unat)
    show "?ny = ?cy \<and> ?nx = (if MAX_COORD \<le> ?cx then ?cx else ?cx + 1)"
      unfolding z by (simp add: stepValue_def MAX_COORD_def)
  qed
  show ?thesis
    apply (rule exI [of _ w'], rule exI [of _ w''], rule exI [of _ ?nx], rule exI [of _ ?ny])
    using same [OF a b] a b u l n nu log g up down left right apply (intro conjI)
                     apply (assumption | (elim conjE, assumption))+
    done
qed

text \<open>
  A player at \<open>(5, 5)\<close>: the direction input \<open>2^32 - 2\<close> has remainder 2 (left) and
  moves the player to \<open>(4, 5)\<close>, as the input 2 does.
\<close>

theorem move_total_in_direction_witness:
  "hasJoined 1 (run [(1, JoinGame)] (deployed (\<lambda>n. 4))) \<and>
   getPlayerPosition 1 (run [(1, JoinGame)] (deployed (\<lambda>n. 4))) = Inr (5, 5) \<and>
   unat (4294967294 :: euint32) mod 4 = 2 \<and>
   (\<exists>w' w''. move 1 (ExternalEuint32 4294967294) ProofAccepted (run [(1, JoinGame)] (deployed (\<lambda>n. 4))) = Inr w' \<and>
      move 1 (ExternalEuint32 2) ProofAccepted (run [(1, JoinGame)] (deployed (\<lambda>n. 4))) = Inr w'' \<and>
      getPlayerPosition 1 w' = Inr (4, 5) \<and> getPlayerPosition 1 w'' = Inr (4, 5))"
proof -
  let ?W = "run [(1, JoinGame)] (deployed (\<lambda>n. 4))"
  have j: "hasJoined 1 ?W"
    by (simp add: hasJoined_def transact_def joinGame_fresh deployed_def)
  have g: "getPlayerPosition 1 ?W = Inr (5, 5)"
    by (simp add: transact_def joinGame_fresh deployed_def getPlayerPosition_def)
  then have p: "pos_x (positions ?W 1) = 5" "pos_y (positions ?W 1) = 5"
    by (simp_all only: getPlayerPosition_Inr)
  have m: "(4294967294 :: 32 word) mod 4 = 2" "unat (4294967294 :: euint32) mod 4 = 2" by simp_all
  from move_total_in_direction [OF j, of 4294967294] obtain w' w'' nx ny where
    a: "move 1 (ExternalEuint32 4294967294) ProofAccepted ?W = Inr w'"
    and b: "move 1 (ExternalEuint32 (4294967294 mod 4)) ProofAccepted ?W = Inr w''"
    and e: "getPlayerPosition 1 w' = getPlayerPosition 1 w''"
    and r: "getPlayerPosition 1 w' = Inr (nx, ny)"
    and l: "unat (4294967294 :: euint32) mod 4 = 2 \<longrightarrow> ny = pos_y (positions ?W 1) \<and>
              nx = (if pos_x (positions ?W 1) \<le> MIN_COORD then pos_x (positions ?W 1)
                    else pos_x (positions ?W 1) - 1)"
    by blast
  from l m(2) have "ny = 5" "nx = 4" unfolding p by (simp_all add: MIN_COORD_def unat_le_1)
  with a b e r g j m show ?thesis by (simp del: run.simps)
qed

text \<open>
  C5. For a player who has not joined, \<open>joinGame\<close> succeeds. It draws two words from
  the library's random source, one for \<open>x\<close> and the next one for \<open>y\<close>, each ranging
  over the whole 32-bit type; each coordinate is its own draw reduced modulo
  \<open>MAX_COORD = 10\<close>, a value in \<open>[0, 9]\<close>, plus \<open>MIN_COORD = 1\<close>, a value in
  \<open>[1, 10]\<close>, and the requested operations are, for each coordinate, the draw, the
  remainder by 10, and the addition of the encrypted 1. Afterwards \<open>hasJoined\<close> is true
  for the player. (That a draw is uniformly distributed is a property of the library's
  \<^verbatim>\<open>randEuint32\<close>; the model leaves the drawn words arbitrary.)
\<close>

theorem joinGame_random_start:
  assumes "\<not> hasJoined p w"
  shows "\<exists>w' a b. joinGame p w = Inr w' \<and> getPlayerPosition p w' = Inr (a, b) \<and>
           a = entropy w (drawn w) mod MAX_COORD + MIN_COORD \<and>
           b = entropy w (drawn w + 1) mod MAX_COORD + MIN_COORD \<and>
           unat a = unat (entropy w (drawn w)) mod 10 + 1 \<and>
           unat b = unat (entropy w (drawn w + 1)) mod 10 + 1 \<and>
           unat (entropy w (drawn w) mod MAX_COORD) \<le> 9 \<and>
           unat (entropy w (drawn w + 1) mod MAX_COORD) \<le> 9 \<and>
           1 \<le> unat a \<and> unat a \<le> 10 \<and> 1 \<le> unat b \<and> unat b \<le> 10 \<and>
           take 8 (newCalls w w') =
             [Call_randEuint32, Call_rem (entropy w (drawn w)) 10, Call_asEuint32 1,
              Call_add (entropy w (drawn w) mod 10) 1,
              Call_randEuint32, Call_rem (entropy w (drawn w + 1)) 10, Call_asEuint32 1,
              Call_add (entropy w (drawn w + 1) mod 10) 1] \<and>
           drawn w' = drawn w + 2 \<and> entropy w' = entropy w \<and>
           hasJoined p w'"
proof -
  let ?a = "entropy w (drawn w) mod 10 + 1"
  let ?b = "entropy w (Suc (drawn w)) mod 10 + 1"
  from assms have nj: "\<not> hasJoinedFlag w p" by (simp add: hasJoined_def)
  obtain w' where j: "joinGame p w = Inr w'" using joinGame_fresh [OF nj] by simp
  from joinGame_fresh [OF nj] j have
    P: "positions w' p = \<lparr>pos_x = ?a, pos_y = ?b\<rparr>" and F: "hasJoinedFlag w' p"
    and D: "drawn w' = drawn w + 2" and E: "entropy w' = entropy w" by auto
  have g: "getPlayerPosition p w' = Inr (?a, ?b)"
    using P F by (simp add: getPlayerPosition_def)
  have r: "unat (entropy w (drawn w) mod 10) \<le> 9" "unat (entropy w (Suc (drawn w)) mod 10) \<le> 9"
    by (simp_all add: unat_mod)
  show ?thesis
    apply (rule exI [of _ w'], rule exI [of _ ?a], rule exI [of _ ?b])
    using j g r F D E randomCoordinate_range [of "entropy w (drawn w)"]
      randomCoordinate_range [of "entropy w (Suc (drawn w))"]
      newCalls_joinGame [OF nj j]
    by (simp add: unat_randomCoordinate MAX_COORD_def MIN_COORD_def hasJoined_def)
qed

theorem joinGame_random_start_witness:
  "\<not> hasJoined 5 (deployed (\<lambda>n. if n = 0 then 4294967295 else 20)) \<and>
   (\<exists>w'. joinGame 5 (deployed (\<lambda>n. if n = 0 then 4294967295 else 20)) = Inr w' \<and>
      getPlayerPosition 5 w' = Inr (6, 1) \<and> hasJoined 5 w')"
proof -
  have nj: "\<not> hasJoined 5 (deployed (\<lambda>n. if n = 0 then 4294967295 else 20))"
    by (simp add: hasJoined_def deployed_def)
  from nj joinGame_random_start [OF nj] show ?thesis
    by (auto simp add: deployed_def MAX_COORD_def MIN_COORD_def)
qed

text \<open>
  C7. A transaction of player \<open>p\<close>, a join or a move, reverted or not, leaves the
  joined flag and the stored coordinate pair of every other player \<open>q\<close> as they were,
  and with them what \<open>hasJoined\<close> and \<open>getPlayerPosition\<close> return for \<open>q\<close>.
\<close>

theorem other_players_untouched:
  assumes "p \<noteq> q"
  shows "hasJoinedFlag (snd (transact p c w)) q = hasJoinedFlag w q \<and>
         positions (snd (transact p c w)) q = positions w q \<and>
         hasJoined q (snd (transact p c w)) = hasJoined q w \<and>
         getPlayerPosition q (snd (transact p c w)) = getPlayerPosition q w \<and>
         (\<forall>w'. joinGame p w = Inr w' \<or> (\<exists>di pr. move p di pr w = Inr w') \<longrightarrow>
            hasJoinedFlag w' q = hasJoinedFlag w q \<and> positions w' q = positions w q)"
proof -
  have t: "hasJoinedFlag (snd (transact p c w)) q = hasJoinedFlag w q \<and>
      positions (snd (transact p c w)) q = positions w q" for c
    using transact_frame [OF assms] .
  have "hasJoinedFlag w' q = hasJoinedFlag w q \<and> positions w' q = positions w q"
    if "joinGame p w = Inr w'" for w'
    using t [of JoinGame] that by (simp add: transact_def)
  moreover have "hasJoinedFlag w' q = hasJoinedFlag w q \<and> positions w' q = positions w q"
    if "move p di pr w = Inr w'" for w' di pr
    using t [of "Move di pr"] that by (simp add: transact_def)
  ultimately show ?thesis
    using t [of c] by (auto simp add: hasJoined_def getPlayerPosition_def)
qed

text \<open>
  Player 1 at \<open>(9, 10)\<close> and player 2 at \<open>(1, 2)\<close>: a move of player 1 to the left
  leaves player 2 where it was.
\<close>

theorem other_players_untouched_witness:
  "(1 :: address) \<noteq> 2 \<and>
   getPlayerPosition 2 (run [(1, JoinGame), (2, JoinGame)] (deployed (\<lambda>n. of_nat n + 8))) = Inr (1, 2) \<and>
   getPlayerPosition 2 (snd (transact 1 (Move (ExternalEuint32 2) ProofAccepted)
      (run [(1, JoinGame), (2, JoinGame)] (deployed (\<lambda>n. of_nat n + 8))))) = Inr (1, 2)"
proof -
  have n: "(1 :: address) \<noteq> 2" by simp
  have g: "getPlayerPosition 2 (run [(1, JoinGame), (2, JoinGame)] (deployed (\<lambda>n. of_nat n + 8))) = Inr (1, 2)"
    by (simp add: transact_def joinGame_fresh deployed_def getPlayerPosition_def)
  from n g other_players_untouched [OF n, of "Move (ExternalEuint32 2) ProofAccepted"
      "run [(1, JoinGame), (2, JoinGame)] (deployed (\<lambda>n. of_nat n + 8))"]
  show ?thesis by simp
qed

text \<open>
  C9. The operations a step requests from the FHE library do not depend on the
  encrypted coordinate or on the encrypted flags derived from the direction: for every
  \<open>current\<close>, \<open>increment\<close> and \<open>decrement\<close> the step requests the same eleven operations
  in the same order. The incremented and the decremented candidate are both computed
  from \<open>current\<close>, whatever the flags; the two comparisons with the board limits and the
  two flags enter only as conditions of the four \<^verbatim>\<open>FHE.select\<close> calls, and the value
  returned is what the last of them selects. The same holds for a whole move: two moves
  of joined players request the same sequence of operations, whatever the directions
  and the stored coordinates.
\<close>

theorem applyStep_is_oblivious:
  "map op_of (newCalls w (snd (run_state (applyStep current increment decrement) w))) =
     [Op_asEuint32, Op_add, Op_sub, Op_asEuint32, Op_le, Op_asEuint32, Op_ge,
      Op_select, Op_select, Op_select, Op_select] \<and>
   map op_of (newCalls w (snd (run_state (applyStep current increment decrement) w))) =
     map op_of (newCalls w2 (snd (run_state (applyStep current2 increment2 decrement2) w2))) \<and>
   newCalls w (snd (run_state (applyStep current increment decrement) w)) =
     [Call_asEuint32 1, Call_add current 1, Call_sub current 1,
      Call_asEuint32 MIN_COORD, Call_le current MIN_COORD,
      Call_asEuint32 MAX_COORD, Call_ge current MAX_COORD,
      Call_select (MAX_COORD \<le> current) current (current + 1),
      Call_select (current \<le> MIN_COORD) current (current - 1),
      Call_select increment (if MAX_COORD \<le> current then current else current + 1) current,
      Call_select decrement (if current \<le> MIN_COORD then current else current - 1)
        (if increment then (if MAX_COORD \<le> current then current else current + 1) else current)] \<and>
   fst (run_state (applyStep current increment decrement) w) =
     (if decrement then (if current \<le> MIN_COORD then current else current - 1)
      else if increment then (if MAX_COORD \<le> current then current else current + 1)
      else current) \<and>
   (hasJoined p w \<and> hasJoined p2 w2 \<longrightarrow>
      (\<exists>w' w2'. move p (ExternalEuint32 direction) ProofAccepted w = Inr w' \<and>
         move p2 (ExternalEuint32 direction2) ProofAccepted w2 = Inr w2' \<and>
         map op_of (newCalls w w') = map op_of (newCalls w2 w2') \<and>
         length (newCalls w w') = 35))"
proof -
  have shape: "map op_of (newCalls w (snd (run_state (applyStep c i d) w))) =
     [Op_asEuint32, Op_add, Op_sub, Op_asEuint32, Op_le, Op_asEuint32, Op_ge,
      Op_select, Op_select, Op_select, Op_select]" for c i d w
    by (simp add: newCalls_applyStep ops_stepCalls)
  have log: "newCalls w (snd (run_state (applyStep current increment decrement) w)) =
     [Call_asEuint32 1, Call_add current 1, Call_sub current 1,
      Call_asEuint32 MIN_COORD, Call_le current MIN_COORD,
      Call_asEuint32 MAX_COORD, Call_ge current MAX_COORD,
      Call_select (MAX_COORD \<le> current) current (current + 1),
      Call_select (current \<le> MIN_COORD) current (current - 1),
      Call_select increment (if MAX_COORD \<le> current then current else current + 1) current,
      Call_select decrement (if current \<le> MIN_COORD then current else current - 1)
        (if increment then (if MAX_COORD \<le> current then current else current + 1) else current)]"
    by (simp add: newCalls_applyStep stepCalls_def MIN_COORD_def MAX_COORD_def)
  have val: "fst (run_state (applyStep current increment decrement) w) =
     (if decrement then (if current \<le> MIN_COORD then current else current - 1)
      else if increment then (if MAX_COORD \<le> current then current else current + 1)
      else current)"
    by (simp add: fst_applyStep stepValue_def MIN_COORD_def MAX_COORD_def)
  have mv: "\<exists>w' w2'. move p (ExternalEuint32 direction) ProofAccepted w = Inr w' \<and>
         move p2 (ExternalEuint32 direction2) ProofAccepted w2 = Inr w2' \<and>
         map op_of (newCalls w w') = map op_of (newCalls w2 w2') \<and>
         length (newCalls w w') = 35"
    if j: "hasJoinedFlag w p" and j2: "hasJoinedFlag w2 p2"
  proof -
    obtain w' where a: "move p (ExternalEuint32 direction) ProofAccepted w = Inr w'"
      using move_accepted [OF j, of direction] by simp
    obtain w2' where b: "move p2 (ExternalEuint32 direction2) ProofAccepted w2 = Inr w2'"
      using move_accepted [OF j2, of direction2] by simp
    have "map op_of (newCalls w w') = map op_of (newCalls w2 w2')"
      unfolding newCalls_move [OF j a] newCalls_move [OF j2 b]
      by (simp add: ops_stepCalls)
    moreover have "length (newCalls w w') = 35"
      unfolding newCalls_move [OF j a] by (simp add: stepCalls_def)
    ultimately show ?thesis using a b by blast
  qed
  show ?thesis
    apply (intro conjI)
        apply (rule shape)
       apply (simp only: shape)
      apply (rule log)
     apply (rule val)
    using mv apply (simp add: hasJoined_def)
    done
qed

text \<open>
  A step at the corner value 10 with the increment flag and a step at 1 with the
  decrement flag request the same operations; so do a move up of player 1 and a move to
  the left of player 2.
\<close>

theorem applyStep_is_oblivious_witness:
  "map op_of (newCalls (deployed (\<lambda>n. 0)) (snd (run_state (applyStep 10 True False) (deployed (\<lambda>n. 0))))) =
   map op_of (newCalls (deployed (\<lambda>n. 0)) (snd (run_state (applyStep 1 False True) (deployed (\<lambda>n. 0))))) \<and>
   hasJoined 1 (run [(1, JoinGame), (2, JoinGame)] (deployed (\<lambda>n. of_nat n))) \<and>
   hasJoined 2 (run [(1, JoinGame), (2, JoinGame)] (deployed (\<lambda>n. of_nat n))) \<and>
   (\<exists>w' w2'. move 1 (ExternalEuint32 0) ProofAccepted (run [(1, JoinGame), (2, JoinGame)] (deployed (\<lambda>n. of_nat n))) = Inr w' \<and>
      move 2 (ExternalEuint32 2) ProofAccepted (run [(1, JoinGame), (2, JoinGame)] (deployed (\<lambda>n. of_nat n))) = Inr w2' \<and>
      map op_of (newCalls (run [(1, JoinGame), (2, JoinGame)] (deployed (\<lambda>n. of_nat n))) w') =
      map op_of (newCalls (run [(1, JoinGame), (2, JoinGame)] (deployed (\<lambda>n. of_nat n))) w2'))"
proof -
  let ?W = "run [(1, JoinGame), (2, JoinGame)] (deployed (\<lambda>n. of_nat n))"
  have j: "hasJoined 1 ?W" "hasJoined 2 ?W"
    by (simp_all add: hasJoined_def transact_def joinGame_fresh deployed_def)
  from j applyStep_is_oblivious [of "deployed (\<lambda>n. 0)" 10 True False "deployed (\<lambda>n. 0)" 1 False True 1 2 0 2]
    applyStep_is_oblivious [of ?W 10 True False ?W 1 False True 1 2 0 2]
  show ?thesis by blast
qed

text \<open>
  C10. For every 32-bit \<open>current\<close>, inside \<open>[1, 10]\<close> or not, and every combination of
  the two flags, the value a step returns is never a wrapped-around intermediate: read
  as natural numbers, it is \<open>current\<close>, or \<open>current + 1\<close> with \<open>current < 10\<close>, or
  \<open>current - 1\<close> with \<open>1 < current\<close>. The boundary tests are \<open>current \<le> MIN_COORD\<close> and
  \<open>MAX_COORD \<le> current\<close>: a decrement with \<open>current \<le> 1\<close> returns \<open>current\<close>, and so does
  an increment with \<open>10 \<le> current\<close> (the decrement is selected last, so when both flags
  are set the step is a decrement, and returns \<open>current - 1\<close> for \<open>1 < current\<close>). Both
  candidates are always computed: \<open>current - 1\<close> wraps at 0 and \<open>current + 1\<close> wraps at
  \<open>2^32 - 1\<close>, and neither wrapped value is returned.
\<close>

theorem applyStep_never_returns_wrapped:
  "(fst (run_state (applyStep c i d) w) = c \<or>
    (unat c < 10 \<and> unat (fst (run_state (applyStep c i d) w)) = unat c + 1) \<or>
    (1 < unat c \<and> unat (fst (run_state (applyStep c i d) w)) + 1 = unat c)) \<and>
   (d \<and> c \<le> MIN_COORD \<longrightarrow> fst (run_state (applyStep c i d) w) = c) \<and>
   (i \<and> \<not> d \<and> MAX_COORD \<le> c \<longrightarrow> fst (run_state (applyStep c i d) w) = c) \<and>
   (i \<and> d \<and> MIN_COORD < c \<longrightarrow> fst (run_state (applyStep c i d) w) = c - 1) \<and>
   Call_add c 1 \<in> set (newCalls w (snd (run_state (applyStep c i d) w))) \<and>
   Call_sub c 1 \<in> set (newCalls w (snd (run_state (applyStep c i d) w))) \<and>
   wraps (Call_sub 0 1) \<and> fst (run_state (applyStep 0 i d) w) \<noteq> 0 - 1 \<and>
   wraps (Call_add 4294967295 1) \<and>
   fst (run_state (applyStep 4294967295 i d) w) \<noteq> 4294967295 + 1"
proof -
  have a: "fst (run_state (applyStep c i d) w) = c \<or>
    (unat c < 10 \<and> unat (fst (run_state (applyStep c i d) w)) = unat c + 1) \<or>
    (1 < unat c \<and> unat (fst (run_state (applyStep c i d) w)) + 1 = unat c)"
    unfolding fst_applyStep by (rule stepValue_no_wrap)
  have b: "d \<and> c \<le> MIN_COORD \<longrightarrow> fst (run_state (applyStep c i d) w) = c"
    "i \<and> \<not> d \<and> MAX_COORD \<le> c \<longrightarrow> fst (run_state (applyStep c i d) w) = c"
    "i \<and> d \<and> MIN_COORD < c \<longrightarrow> fst (run_state (applyStep c i d) w) = c - 1"
    by (auto simp add: fst_applyStep stepValue_def MIN_COORD_def MAX_COORD_def)
  have e: "Call_add c 1 \<in> set (newCalls w (snd (run_state (applyStep c i d) w)))"
    "Call_sub c 1 \<in> set (newCalls w (snd (run_state (applyStep c i d) w)))"
    by (simp_all add: newCalls_applyStep stepCalls_def)
  have z: "wraps (Call_sub 0 1)" "fst (run_state (applyStep 0 i d) w) \<noteq> 0 - 1"
    by (simp_all add: fst_applyStep stepValue_def)
  have m: "wraps (Call_add 4294967295 1)"
    "fst (run_state (applyStep 4294967295 i d) w) \<noteq> 4294967295 + 1"
    by (simp_all add: fst_applyStep stepValue_def)
  from a b e z m show ?thesis by blast
qed

theorem applyStep_never_returns_wrapped_witness:
  "(0 :: euint32) \<le> MIN_COORD \<and> fst (run_state (applyStep 0 False True) (deployed (\<lambda>n. 0))) = 0 \<and>
   (0 :: euint32) - 1 = 4294967295 \<and>
   MAX_COORD \<le> (4294967295 :: euint32) \<and>
   fst (run_state (applyStep 4294967295 True False) (deployed (\<lambda>n. 0))) = 4294967295 \<and>
   (4294967295 :: euint32) + 1 = 0"
proof -
  have h: "(0 :: euint32) \<le> MIN_COORD" "MAX_COORD \<le> (4294967295 :: euint32)"
    by (simp_all add: MIN_COORD_def MAX_COORD_def)
  from h applyStep_never_returns_wrapped [of 0 False True "deployed (\<lambda>n. 0)"]
    applyStep_never_returns_wrapped [of 4294967295 True False "deployed (\<lambda>n. 0)"]
  show ?thesis by simp
qed

text \<open>
  C6. For a joined player at \<open>(x0, y0)\<close> in \<open>[1, 10]\<close> squared, \<open>n\<close> moves in one direction
  move one coordinate towards its edge and keep the other: after \<open>n\<close> moves up \<open>y\<close> is
  \<open>min 10 (y0 + n)\<close>, after \<open>n\<close> moves down \<open>max 1 (y0 - n)\<close>, and likewise for \<open>x\<close> with
  right and left. So the coordinate reaches the edge and every further move in that
  direction leaves it there. In particular 15 moves up give \<open>(x0, 10)\<close> and 15 moves to
  the left after them give \<open>(1, 10)\<close>; in the order of the repository's test, 15 moves to
  the left and then 15 moves up give \<open>(1, 10)\<close> as well.
\<close>

theorem repeated_moves_reach_the_edge:
  assumes pos: "getPlayerPosition p w = Inr (x0, y0)"
    and xb: "1 \<le> unat x0" "unat x0 \<le> 10" and yb: "1 \<le> unat y0" "unat y0 \<le> 10"
  shows "(\<exists>w' a b. moveTimes n p (ExternalEuint32 d) ProofAccepted w = Inr w' \<and>
            getPlayerPosition p w' = Inr (a, b) \<and>
            (d mod 4 = 0 \<longrightarrow> a = x0 \<and> unat b = min 10 (unat y0 + n)) \<and>
            (d mod 4 = 1 \<longrightarrow> a = x0 \<and> unat b = max 1 (unat y0 - n)) \<and>
            (d mod 4 = 2 \<longrightarrow> b = y0 \<and> unat a = max 1 (unat x0 - n)) \<and>
            (d mod 4 = 3 \<longrightarrow> b = y0 \<and> unat a = min 10 (unat x0 + n))) \<and>
         (\<exists>w1 w2. moveTimes 15 p (ExternalEuint32 0) ProofAccepted w = Inr w1 \<and>
            getPlayerPosition p w1 = Inr (x0, 10) \<and>
            moveTimes 15 p (ExternalEuint32 2) ProofAccepted w1 = Inr w2 \<and>
            getPlayerPosition p w2 = Inr (1, 10)) \<and>
         (\<exists>w1 w2. moveTimes 15 p (ExternalEuint32 2) ProofAccepted w = Inr w1 \<and>
            getPlayerPosition p w1 = Inr (1, y0) \<and>
            moveTimes 15 p (ExternalEuint32 0) ProofAccepted w1 = Inr w2 \<and>
            getPlayerPosition p w2 = Inr (1, 10))"
proof -
  have general: "\<exists>w' a b. moveTimes k q (ExternalEuint32 v) ProofAccepted u = Inr w' \<and>
            getPlayerPosition q w' = Inr (a, b) \<and>
            (v mod 4 = 0 \<longrightarrow> a = cx \<and> unat b = min 10 (unat cy + k)) \<and>
            (v mod 4 = 1 \<longrightarrow> a = cx \<and> unat b = max 1 (unat cy - k)) \<and>
            (v mod 4 = 2 \<longrightarrow> b = cy \<and> unat a = max 1 (unat cx - k)) \<and>
            (v mod 4 = 3 \<longrightarrow> b = cy \<and> unat a = min 10 (unat cx + k))"
    if g: "getPlayerPosition q u = Inr (cx, cy)"
      and b: "1 \<le> unat cx" "unat cx \<le> 10" "1 \<le> unat cy" "unat cy \<le> 10"
    for k q v u cx cy
  proof -
    from g have j: "hasJoinedFlag u q" and x: "pos_x (positions u q) = cx"
      and y: "pos_y (positions u q) = cy"
      by (simp_all add: getPlayerPosition_Inr)
    let ?a = "((\<lambda>c. stepValue c (v mod 4 = 3) (v mod 4 = 2)) ^^ k) cx"
    let ?b = "((\<lambda>c. stepValue c (v mod 4 = 0) (v mod 4 = 1)) ^^ k) cy"
    from moveTimes_accepted [OF j, of k v] x y obtain w' where
      mt: "moveTimes k q (ExternalEuint32 v) ProofAccepted u = Inr w'"
      and gp: "getPlayerPosition q w' = Inr (?a, ?b)"
      by (auto simp add: getPlayerPosition_Inr)
    have up: "v mod 4 = 0 \<longrightarrow> ?a = cx \<and> unat ?b = min 10 (unat cy + k)"
      using inc_iter [OF b(4), of k] by (simp add: idle_iter)
    have down: "v mod 4 = 1 \<longrightarrow> ?a = cx \<and> unat ?b = max 1 (unat cy - k)"
      using dec_iter [OF b(3), where i = False and n = k] by (simp add: idle_iter)
    have left: "v mod 4 = 2 \<longrightarrow> ?b = cy \<and> unat ?a = max 1 (unat cx - k)"
      using dec_iter [OF b(1), where i = False and n = k] by (simp add: idle_iter)
    have right: "v mod 4 = 3 \<longrightarrow> ?b = cy \<and> unat ?a = min 10 (unat cx + k)"
      using inc_iter [OF b(2), of k] by (simp add: idle_iter)
    show ?thesis
      apply (rule exI [of _ w'], rule exI [of _ ?a], rule exI [of _ ?b])
      using mt gp up down left right apply (intro conjI)
           apply assumption+
      done
  qed
  have up15: "\<exists>w1. moveTimes 15 p (ExternalEuint32 0) ProofAccepted u = Inr w1 \<and>
      getPlayerPosition p w1 = Inr (cx, 10)"
    if "getPlayerPosition p u = Inr (cx, cy)"
      "1 \<le> unat cx" "unat cx \<le> 10" "1 \<le> unat cy" "unat cy \<le> 10" for u cx cy
    using general [OF that, of 15 0] that by (auto simp add: unat_is_10)
  have left15: "\<exists>w1. moveTimes 15 p (ExternalEuint32 2) ProofAccepted u = Inr w1 \<and>
      getPlayerPosition p w1 = Inr (1, cy)"
    if "getPlayerPosition p u = Inr (cx, cy)"
      "1 \<le> unat cx" "unat cx \<le> 10" "1 \<le> unat cy" "unat cy \<le> 10" for u cx cy
    using general [OF that, of 15 2] that by (auto simp add: unat_is_1 max_def)
  have s1: "\<exists>w1 w2. moveTimes 15 p (ExternalEuint32 0) ProofAccepted w = Inr w1 \<and>
            getPlayerPosition p w1 = Inr (x0, 10) \<and>
            moveTimes 15 p (ExternalEuint32 2) ProofAccepted w1 = Inr w2 \<and>
            getPlayerPosition p w2 = Inr (1, 10)"
  proof -
    from up15 [OF pos xb yb] obtain w1 where
      a: "moveTimes 15 p (ExternalEuint32 0) ProofAccepted w = Inr w1"
      and g1: "getPlayerPosition p w1 = Inr (x0, 10)" by blast
    from left15 [OF g1 xb] obtain w2 where
      "moveTimes 15 p (ExternalEuint32 2) ProofAccepted w1 = Inr w2"
      "getPlayerPosition p w2 = Inr (1, 10)" by auto
    with a g1 show ?thesis by blast
  qed
  have s2: "\<exists>w1 w2. moveTimes 15 p (ExternalEuint32 2) ProofAccepted w = Inr w1 \<and>
            getPlayerPosition p w1 = Inr (1, y0) \<and>
            moveTimes 15 p (ExternalEuint32 0) ProofAccepted w1 = Inr w2 \<and>
            getPlayerPosition p w2 = Inr (1, 10)"
  proof -
    from left15 [OF pos xb yb] obtain w1 where
      a: "moveTimes 15 p (ExternalEuint32 2) ProofAccepted w = Inr w1"
      and g1: "getPlayerPosition p w1 = Inr (1, y0)" by blast
    from up15 [OF g1 _ _ yb] obtain w2 where
      "moveTimes 15 p (ExternalEuint32 0) ProofAccepted w1 = Inr w2"
      "getPlayerPosition p w2 = Inr (1, 10)" by auto
    with a g1 show ?thesis by blast
  qed
  from general [OF pos xb yb, of n d] s1 s2 show ?thesis by blast
qed

text \<open>
  A player who starts at \<open>(4, 7)\<close>: 15 moves up give \<open>(4, 10)\<close>, 15 moves to the left
  after them give \<open>(1, 10)\<close>.
\<close>

theorem repeated_moves_reach_the_edge_witness:
  "getPlayerPosition 1 (run [(1, JoinGame)] (deployed (\<lambda>n. 3 * of_nat n + 3))) = Inr (4, 7) \<and>
   (\<exists>w1 w2. moveTimes 15 1 (ExternalEuint32 0) ProofAccepted
                (run [(1, JoinGame)] (deployed (\<lambda>n. 3 * of_nat n + 3))) = Inr w1 \<and>
      getPlayerPosition 1 w1 = Inr (4, 10) \<and>
      moveTimes 15 1 (ExternalEuint32 2) ProofAccepted w1 = Inr w2 \<and>
      getPlayerPosition 1 w2 = Inr (1, 10))"
proof -
  have g: "getPlayerPosition 1 (run [(1, JoinGame)] (deployed (\<lambda>n. 3 * of_nat n + 3))) = Inr (4, 7)"
    by (simp add: transact_def joinGame_fresh deployed_def getPlayerPosition_def)
  have b: "1 \<le> unat (4 :: euint32)" "unat (4 :: euint32) \<le> 10"
    "1 \<le> unat (7 :: euint32)" "unat (7 :: euint32) \<le> 10" by simp_all
  from g repeated_moves_reach_the_edge [OF g b] show ?thesis by blast
qed

text \<open>
  C8, as stated, fails at the lower end of the operand bound it names: 0 is in
  \<open>[0, 10]\<close>, a step on 0 requests the subtraction \<open>0 - 1\<close>, and this subtraction wraps
  around to \<open>2^32 - 1\<close>.
\<close>

theorem step_subtraction_wraps_at_zero:
  "unat (0 :: euint32) \<le> 10 \<and>
   Call_sub 0 1 \<in> set (newCalls (deployed (\<lambda>n. 0))
      (snd (run_state (applyStep 0 False False) (deployed (\<lambda>n. 0))))) \<and>
   wraps (Call_sub 0 1) \<and> (0 :: euint32) - 1 = 4294967295"
  by (simp add: newCalls_applyStep stepCalls_def)

text \<open>
  C8, amended. The arithmetic is unsigned and the remainder is the remainder of the
  natural numbers. No addition and no subtraction requested by a join or a move wraps
  around modulo \<open>2^32\<close>, in any sequence of transactions on a fresh deployment: the
  operand of the addition in the random coordinate is in \<open>[0, 9]\<close>, and the operand of a
  step is a stored coordinate of a joined player, in \<open>[1, 10]\<close>. For \<open>current\<close> in
  \<open>[1, 10]\<close> neither \<open>current + 1\<close> nor \<open>current - 1\<close> wraps; \<open>current + 1\<close> does not
  wrap for \<open>current\<close> in \<open>[0, 10]\<close> either.
\<close>

theorem no_arithmetic_wraps_on_board:
  "(1 \<le> unat c \<and> unat c \<le> 10 \<longrightarrow>
      (\<forall>k \<in> set (newCalls w (snd (run_state (applyStep c i d) w))). \<not> wraps k) \<and>
      Call_add c 1 \<in> set (newCalls w (snd (run_state (applyStep c i d) w))) \<and>
      Call_sub c 1 \<in> set (newCalls w (snd (run_state (applyStep c i d) w))) \<and>
      unat (c + 1) = unat c + 1 \<and> unat (c - 1) + 1 = unat c) \<and>
   (unat c \<le> 10 \<longrightarrow> unat (c + 1) = unat c + 1) \<and>
   (\<forall>k \<in> set (calls (run txs (deployed rnd))). \<not> wraps k) \<and>
   unat (fst (run_state (FHE_rem a b) w)) = unat a mod unat b"
proof -
  have s: "(\<forall>k \<in> set (newCalls w (snd (run_state (applyStep c i d) w))). \<not> wraps k) \<and>
      Call_add c 1 \<in> set (newCalls w (snd (run_state (applyStep c i d) w))) \<and>
      Call_sub c 1 \<in> set (newCalls w (snd (run_state (applyStep c i d) w))) \<and>
      unat (c + 1) = unat c + 1 \<and> unat (c - 1) + 1 = unat c"
    if b: "1 \<le> unat c" "unat c \<le> 10"
  proof -
    have "unat (c - 1) = unat c - 1" using b(1) by (rule unat_pred)
    with b(1) have p: "unat (c - 1) + 1 = unat c" by simp
    have q: "unat (c + 1) = unat c + 1"
    proof (cases "unat c = 10")
      case True
      then have "c = 10" by (simp add: unat_is_10)
      then show ?thesis by simp
    next
      case False
      with b(2) have "unat c < 10" by simp
      then show ?thesis by (rule unat_succ)
    qed
    from stepCalls_no_wrap [OF b, of i d] p q show ?thesis
      by (simp add: newCalls_applyStep) (simp add: stepCalls_def)
  qed
  have a: "unat (c + 1) = unat c + 1" if b: "unat c \<le> 10"
  proof (cases "unat c = 10")
    case True
    then have "c = 10" by (simp add: unat_is_10)
    then show ?thesis by simp
  next
    case False
    with b have "unat c < 10" by simp
    then show ?thesis by (rule unat_succ)
  qed
  have "\<And>q. hasJoinedFlag (deployed rnd) q \<Longrightarrow> onBoard (deployed rnd) q"
    by (simp add: deployed_def)
  moreover have "\<forall>k \<in> set (calls (deployed rnd)). \<not> wraps k" by (simp add: deployed_def)
  ultimately have r: "\<forall>k \<in> set (calls (run txs (deployed rnd))). \<not> wraps k"
    by (rule run_no_wrap)
  have m: "unat (fst (run_state (FHE_rem a b) w)) = unat a mod unat b"
    by (simp add: FHE_rem_def fhe_def unat_mod)
  from s a r m show ?thesis by blast
qed

text \<open>A step at the corner value 10: \<open>10 + 1 = 11\<close> and \<open>10 - 1 = 9\<close>, nothing wraps.\<close>

theorem no_arithmetic_wraps_on_board_witness:
  "1 \<le> unat (10 :: euint32) \<and> unat (10 :: euint32) \<le> 10 \<and>
   Call_add 10 1 \<in> set (newCalls (deployed (\<lambda>n. 0))
      (snd (run_state (applyStep 10 True False) (deployed (\<lambda>n. 0))))) \<and>
   Call_sub 10 1 \<in> set (newCalls (deployed (\<lambda>n. 0))
      (snd (run_state (applyStep 10 True False) (deployed (\<lambda>n. 0))))) \<and>
   \<not> wraps (Call_add 10 1) \<and> \<not> wraps (Call_sub 10 1)"
proof -
  have h: "1 \<le> unat (10 :: euint32)" "unat (10 :: euint32) \<le> 10" by simp_all
  from h no_arithmetic_wraps_on_board [of 10 "deployed (\<lambda>n. 0)" True False]
  show ?thesis by blast
qed

end
